theory Spec2Isabelle
  imports Main
begin

section \<open>Red-black tree nodes (init.data.rbtree.basic)\<close>

text \<open>
  The compiled module works on constructor objects with tag 0 (leaf), tag 1 (red node) and
  tag 2 (black node); a node has the fields 0 = left child, 1 = key, 2 = value,
  3 = right child.  The comparator \<open>lt\<close> is a closure returning a boxed boolean.
  Reference counting (\<open>inc\<close>, \<open>dec\<close>, \<open>is_exclusive\<close>) only decides whether a cell is
  reused or freshly allocated and is not visible in the values computed.
\<close>

datatype color = Red | Black

datatype ('k, 'v) rbnode =
    Leaf
  | RedNode "('k, 'v) rbnode" 'k 'v "('k, 'v) rbnode"
  | BlackNode "('k, 'v) rbnode" 'k 'v "('k, 'v) rbnode"

subsection \<open>Helpers that the module imports\<close>

text \<open>
  Modelled from the spec: \<open>l_rbnode_get__color___main___rarg\<close> is declared and called in
  \<open>basic.cpp\<close> but defined in another module.  The spec gives a node one of the two colors
  red and black; the callers test the result against 0 to detect a red child, so red is
  encoded as 0.  A leaf counts as black.
\<close>

fun rbnode_get_color :: "('k, 'v) rbnode \<Rightarrow> color" where
  "rbnode_get_color (RedNode l k v r) = Red"
| "rbnode_get_color t = Black"

text \<open>
  Modelled from the spec: \<open>l_rbnode_balance1__node___main___rarg\<close> and
  \<open>l_rbnode_balance2__node___main___rarg\<close> are declared and called in \<open>basic.cpp\<close> but
  defined in another module.  The spec says that they repair a red-red violation by a
  rotation, "recoloring children black and re-coloring the rotated node red", and that
  \<open>balance2\<close> is the mirror case.  The first argument is the subtree returned by the
  recursive insertion, the key and value are those of the black parent, and the last
  argument is the untouched sibling: \<open>balance1\<close> is called after an insertion into the left
  child, \<open>balance2\<close> after an insertion into the right child.  When the subtree shows no
  red child, the black parent is rebuilt above it.  The recursive insertion never returns
  a leaf; for a leaf the sibling is returned.
\<close>

fun rbnode_balance1 ::
  "('k, 'v) rbnode \<Rightarrow> 'k \<Rightarrow> 'v \<Rightarrow> ('k, 'v) rbnode \<Rightarrow> 'k \<Rightarrow> 'v \<Rightarrow> ('k, 'v) rbnode \<Rightarrow> ('k, 'v) rbnode"
where
  "rbnode_balance1 (RedNode l kx vx r1) ky vy r2 kv vv t =
     RedNode (BlackNode l kx vx r1) ky vy (BlackNode r2 kv vv t)"
| "rbnode_balance1 l1 ky vy (RedNode l2 kx vx r) kv vv t =
     RedNode (BlackNode l1 ky vy l2) kx vx (BlackNode r kv vv t)"
| "rbnode_balance1 l ky vy r kv vv t = BlackNode (RedNode l ky vy r) kv vv t"

fun rbnode_balance1_node ::
  "('k, 'v) rbnode \<Rightarrow> 'k \<Rightarrow> 'v \<Rightarrow> ('k, 'v) rbnode \<Rightarrow> ('k, 'v) rbnode"
where
  "rbnode_balance1_node (RedNode l kx vx r) kv vv t = rbnode_balance1 l kx vx r kv vv t"
| "rbnode_balance1_node (BlackNode l kx vx r) kv vv t = rbnode_balance1 l kx vx r kv vv t"
| "rbnode_balance1_node Leaf kv vv t = t"

fun rbnode_balance2 ::
  "('k, 'v) rbnode \<Rightarrow> 'k \<Rightarrow> 'v \<Rightarrow> ('k, 'v) rbnode \<Rightarrow> 'k \<Rightarrow> 'v \<Rightarrow> ('k, 'v) rbnode \<Rightarrow> ('k, 'v) rbnode"
where
  "rbnode_balance2 (RedNode l kx vx r1) ky vy r2 kv vv t =
     RedNode (BlackNode t kv vv l) kx vx (BlackNode r1 ky vy r2)"
| "rbnode_balance2 l1 ky vy (RedNode l2 kx vx r2) kv vv t =
     RedNode (BlackNode t kv vv l1) ky vy (BlackNode l2 kx vx r2)"
| "rbnode_balance2 l ky vy r kv vv t = BlackNode t kv vv (RedNode l ky vy r)"

fun rbnode_balance2_node ::
  "('k, 'v) rbnode \<Rightarrow> 'k \<Rightarrow> 'v \<Rightarrow> ('k, 'v) rbnode \<Rightarrow> ('k, 'v) rbnode"
where
  "rbnode_balance2_node (RedNode l kx vx r) kv vv t = rbnode_balance2 l kx vx r kv vv t"
| "rbnode_balance2_node (BlackNode l kx vx r) kv vv t = rbnode_balance2 l kx vx r kv vv t"
| "rbnode_balance2_node Leaf kv vv t = t"

text \<open>
  Modelled from the spec: \<open>l_rbnode_mk__insert__result___main___rarg\<close> is declared and
  called in \<open>basic.cpp\<close> but defined in another module.  It receives the color of the root
  before the insertion and the tree returned by the recursive insertion; the spec says
  that the "root coloring is forced black after the full insertion completes" and that a
  node inserted into the empty tree is "colored red at creation, then forced black if it
  is root".
\<close>

fun rbnode_mk_insert_result :: "color \<Rightarrow> ('k, 'v) rbnode \<Rightarrow> ('k, 'v) rbnode" where
  "rbnode_mk_insert_result c (RedNode l k v r) = BlackNode l k v r"
| "rbnode_mk_insert_result c t = t"

text \<open>
  Modelled from the spec: \<open>l_option_to__bool___main___rarg\<close> is declared and called in
  \<open>basic.cpp\<close> but defined in another module; it tells whether a lookup found something.
\<close>

fun option_to_bool :: "'a option \<Rightarrow> bool" where
  "option_to_bool None = False"
| "option_to_bool (Some x) = True"

subsection \<open>Insertion\<close>

text \<open>\<open>l_rbnode_ins___main___at_rbtree_insert___spec__3___rarg\<close>\<close>

fun rbnode_ins ::
  "('k \<Rightarrow> 'k \<Rightarrow> bool) \<Rightarrow> ('k, 'v) rbnode \<Rightarrow> 'k \<Rightarrow> 'v \<Rightarrow> ('k, 'v) rbnode"
where
  "rbnode_ins lt Leaf k v = RedNode Leaf k v Leaf"
| "rbnode_ins lt (RedNode a ky vy b) k v =
     (if lt k ky then RedNode (rbnode_ins lt a k v) ky vy b
      else if lt ky k then RedNode a ky vy (rbnode_ins lt b k v)
      else RedNode a k v b)"
| "rbnode_ins lt (BlackNode a ky vy b) k v =
     (if lt k ky then
        (if rbnode_get_color a = Red
         then rbnode_balance1_node (rbnode_ins lt a k v) ky vy b
         else BlackNode (rbnode_ins lt a k v) ky vy b)
      else if lt ky k then
        (if rbnode_get_color b = Red
         then rbnode_balance2_node (rbnode_ins lt b k v) ky vy a
         else BlackNode a ky vy (rbnode_ins lt b k v))
      else BlackNode a k v b)"

text \<open>\<open>l_rbnode_insert___at_rbtree_insert___spec__2___rarg\<close>\<close>

definition rbnode_insert ::
  "('k \<Rightarrow> 'k \<Rightarrow> bool) \<Rightarrow> ('k, 'v) rbnode \<Rightarrow> 'k \<Rightarrow> 'v \<Rightarrow> ('k, 'v) rbnode"
where
  "rbnode_insert lt t k v = rbnode_mk_insert_result (rbnode_get_color t) (rbnode_ins lt t k v)"

text \<open>
  \<open>l_rbtree_insert___rarg\<close>: the tree is a set of keys; the value stored with every key
  is the unit object \<open>box(0)\<close>.
\<close>

definition rbtree_insert ::
  "('k \<Rightarrow> 'k \<Rightarrow> bool) \<Rightarrow> ('k, unit) rbnode \<Rightarrow> 'k \<Rightarrow> ('k, unit) rbnode"
where
  "rbtree_insert lt t k = rbnode_insert lt t k ()"

text \<open>
  \<open>l_list_foldl___main___at_rbtree_from__list___spec__5___rarg\<close> and
  \<open>l_rbtree_from__list___rarg\<close>: the tree built from the empty tree by inserting the
  elements of a list one after the other.
\<close>

fun list_foldl_insert ::
  "('k \<Rightarrow> 'k \<Rightarrow> bool) \<Rightarrow> ('k, unit) rbnode \<Rightarrow> 'k list \<Rightarrow> ('k, unit) rbnode"
where
  "list_foldl_insert lt t [] = t"
| "list_foldl_insert lt t (k # ks) = list_foldl_insert lt (rbnode_insert lt t k ()) ks"

definition rbtree_from_list :: "'k list \<Rightarrow> ('k \<Rightarrow> 'k \<Rightarrow> bool) \<Rightarrow> ('k, unit) rbnode" where
  "rbtree_from_list ks lt = list_foldl_insert lt Leaf ks"

subsection \<open>Lookup\<close>

text \<open>\<open>l_rbnode_find__core___main___at_rbtree_find___spec__2___rarg\<close>\<close>

fun rbnode_find_core ::
  "('k \<Rightarrow> 'k \<Rightarrow> bool) \<Rightarrow> ('k, 'v) rbnode \<Rightarrow> 'k \<Rightarrow> ('k \<times> 'v) option"
where
  "rbnode_find_core lt Leaf x = None"
| "rbnode_find_core lt (RedNode a ky vy b) x =
     (if lt x ky then rbnode_find_core lt a x
      else if lt ky x then rbnode_find_core lt b x
      else Some (ky, vy))"
| "rbnode_find_core lt (BlackNode a ky vy b) x =
     (if lt x ky then rbnode_find_core lt a x
      else if lt ky x then rbnode_find_core lt b x
      else Some (ky, vy))"

text \<open>\<open>l_rbtree_find___rarg\<close>: the first component of the entry found.\<close>

definition rbtree_find ::
  "('k \<Rightarrow> 'k \<Rightarrow> bool) \<Rightarrow> ('k, 'v) rbnode \<Rightarrow> 'k \<Rightarrow> 'k option"
where
  "rbtree_find lt t x =
     (case rbnode_find_core lt t x of None \<Rightarrow> None | Some e \<Rightarrow> Some (fst e))"

subsection \<open>Conversion to a list\<close>

text \<open>
  \<open>l_rbnode_rev__fold___main___at_rbtree_to__list___spec__1___rarg\<close>: the reverse fold
  specialised to the function that puts the key of the node in front of the accumulator.
\<close>

fun rbnode_rev_fold_cons :: "('k, 'v) rbnode \<Rightarrow> 'k list \<Rightarrow> 'k list" where
  "rbnode_rev_fold_cons Leaf acc = acc"
| "rbnode_rev_fold_cons (RedNode l k v r) acc =
     rbnode_rev_fold_cons l (k # rbnode_rev_fold_cons r acc)"
| "rbnode_rev_fold_cons (BlackNode l k v r) acc =
     rbnode_rev_fold_cons l (k # rbnode_rev_fold_cons r acc)"

text \<open>\<open>l_rbtree_to__list___rarg\<close>\<close>

definition rbtree_to_list :: "('k, 'v) rbnode \<Rightarrow> 'k list" where
  "rbtree_to_list t = rbnode_rev_fold_cons t []"

subsection \<open>Universal and existential tests\<close>

text \<open>
  \<open>l_rbnode_all___main___at_rbtree_all___spec__1___rarg\<close>: the predicate is a closure that
  the code applies to the key of the node at hand first, then it descends into the left
  child and last into the right child, returning as soon as one application or one
  recursive call yields false.  The applications of the closure are what an observer of
  the traversal sees, so the model returns, next to the boolean, the keys the predicate
  was applied to, in the order of the applications.
\<close>

fun rbnode_all :: "('k \<Rightarrow> bool) \<Rightarrow> ('k, 'v) rbnode \<Rightarrow> bool \<times> 'k list" where
  "rbnode_all p Leaf = (True, [])"
| "rbnode_all p (RedNode l k v r) =
     (if \<not> p k then (False, [k])
      else (case rbnode_all p l of
              (bl, vl) \<Rightarrow>
                if \<not> bl then (False, k # vl)
                else (case rbnode_all p r of (br, vr) \<Rightarrow> (br, k # vl @ vr))))"
| "rbnode_all p (BlackNode l k v r) =
     (if \<not> p k then (False, [k])
      else (case rbnode_all p l of
              (bl, vl) \<Rightarrow>
                if \<not> bl then (False, k # vl)
                else (case rbnode_all p r of (br, vr) \<Rightarrow> (br, k # vl @ vr))))"

text \<open>\<open>l_rbtree_all___rarg\<close>: the tree comes first, the predicate second.\<close>

definition rbtree_all :: "('k, 'v) rbnode \<Rightarrow> ('k \<Rightarrow> bool) \<Rightarrow> bool \<times> 'k list" where
  "rbtree_all t p = rbnode_all p t"

text \<open>
  \<open>l_rbnode_any___main___at_rbtree_any___spec__1___rarg\<close>: the same traversal, returning
  as soon as one application or one recursive call yields true.
\<close>

fun rbnode_any :: "('k \<Rightarrow> bool) \<Rightarrow> ('k, 'v) rbnode \<Rightarrow> bool \<times> 'k list" where
  "rbnode_any p Leaf = (False, [])"
| "rbnode_any p (RedNode l k v r) =
     (if p k then (True, [k])
      else (case rbnode_any p l of
              (bl, vl) \<Rightarrow>
                if bl then (True, k # vl)
                else (case rbnode_any p r of (br, vr) \<Rightarrow> (br, k # vl @ vr))))"
| "rbnode_any p (BlackNode l k v r) =
     (if p k then (True, [k])
      else (case rbnode_any p l of
              (bl, vl) \<Rightarrow>
                if bl then (True, k # vl)
                else (case rbnode_any p r of (br, vr) \<Rightarrow> (br, k # vl @ vr))))"

text \<open>\<open>l_rbtree_any___rarg\<close>\<close>

definition rbtree_any :: "('k, 'v) rbnode \<Rightarrow> ('k \<Rightarrow> bool) \<Rightarrow> bool \<times> 'k list" where
  "rbtree_any t p = rbnode_any p t"

subsection \<open>Subset\<close>

text \<open>
  \<open>l_rbnode_all___main___at_rbtree_subset___spec__4___rarg\<close>: the universal test
  specialised to the predicate "the key is found in the tree \<open>t2\<close>"; its last argument is
  the tree that is traversed.
\<close>

fun rbnode_all_subset ::
  "('k \<Rightarrow> 'k \<Rightarrow> bool) \<Rightarrow> ('k, 'v) rbnode \<Rightarrow> ('k, 'w) rbnode \<Rightarrow> bool"
where
  "rbnode_all_subset lt t2 Leaf = True"
| "rbnode_all_subset lt t2 (RedNode l k v r) =
     (if \<not> option_to_bool (rbtree_find lt t2 k) then False
      else if \<not> rbnode_all_subset lt t2 l then False
      else rbnode_all_subset lt t2 r)"
| "rbnode_all_subset lt t2 (BlackNode l k v r) =
     (if \<not> option_to_bool (rbtree_find lt t2 k) then False
      else if \<not> rbnode_all_subset lt t2 l then False
      else rbnode_all_subset lt t2 r)"

text \<open>\<open>l_rbtree_subset___rarg\<close>: the first tree is the one traversed.\<close>

definition rbtree_subset ::
  "('k \<Rightarrow> 'k \<Rightarrow> bool) \<Rightarrow> ('k, 'w) rbnode \<Rightarrow> ('k, 'v) rbnode \<Rightarrow> bool"
where
  "rbtree_subset lt t1 t2 = rbnode_all_subset lt t2 t1"

section \<open>Bounded fixpoint (init.fix)\<close>

text \<open>
  \<open>l_bfix___main___rarg\<close>: with no fuel left the base function answers; otherwise the
  step function receives the closure of \<open>bfix\<close> with one unit of fuel less, and the
  argument.
\<close>

fun bfix :: "('a \<Rightarrow> 'b) \<Rightarrow> (('a \<Rightarrow> 'b) \<Rightarrow> 'a \<Rightarrow> 'b) \<Rightarrow> nat \<Rightarrow> 'a \<Rightarrow> 'b" where
  "bfix base rec fuel x =
     (if fuel = 0 then base x else rec (bfix base rec (fuel - 1)) x)"

declare bfix.simps [simp del]

text \<open>
  To count the applications of the step function, the same code is run once more with
  closures whose calls can be observed.  The body of one application of the step
  function either returns, or calls the continuation it was given with an argument and
  goes on with the answer; \<open>step_of\<close> is the step function that such a body denotes.
  A body is a finite tree of calls: an application of the step function returns once
  the calls it makes have returned.
\<close>

datatype ('a, 'b) body = Return 'b | Call 'a "'b \<Rightarrow> ('a, 'b) body"

primrec apply_body :: "('a \<Rightarrow> 'b) \<Rightarrow> ('a, 'b) body \<Rightarrow> 'b" where
  "apply_body f (Return b) = b"
| "apply_body f (Call a k) = apply_body f (k (f a))"

definition step_of :: "('a \<Rightarrow> ('a, 'b) body) \<Rightarrow> ('a \<Rightarrow> 'b) \<Rightarrow> 'a \<Rightarrow> 'b" where
  "step_of sp f x = apply_body f (sp x)"

text \<open>
  The outcome of a call that returns: its result, the number of applications of the step
  function made on the way, and the greatest number of applications nested in one
  another.  A call that does not return has no outcome; the base function is a closure
  that may not return.
\<close>

record 'b outcome =
  result :: 'b
  applications :: nat
  depth :: nat

primrec run_body :: "('a \<Rightarrow> 'b outcome option) \<Rightarrow> ('a, 'b) body \<Rightarrow> 'b outcome option" where
  "run_body f (Return b) = Some \<lparr>result = b, applications = 0, depth = 0\<rparr>"
| "run_body f (Call a k) =
     (case f a of
        None \<Rightarrow> None
      | Some r \<Rightarrow>
          (case run_body f (k (result r)) of
             None \<Rightarrow> None
           | Some r' \<Rightarrow>
               Some \<lparr>result = result r', applications = applications r + applications r',
                     depth = max (depth r) (depth r')\<rparr>))"

text \<open>
  \<open>l_bfix___main___rarg\<close> with the observations: without fuel the base function is
  applied; otherwise the step function is applied once, to the closure of \<open>bfix\<close> with one
  unit of fuel less, and to the argument.
\<close>

primrec bfix_run ::
  "('a \<Rightarrow> 'b option) \<Rightarrow> ('a \<Rightarrow> ('a, 'b) body) \<Rightarrow> nat \<Rightarrow> 'a \<Rightarrow> 'b outcome option"
where
  "bfix_run base sp 0 x =
     (case base x of
        None \<Rightarrow> None
      | Some b \<Rightarrow> Some \<lparr>result = b, applications = 0, depth = 0\<rparr>)"
| "bfix_run base sp (Suc n) x =
     (case run_body (bfix_run base sp n) (sp x) of
        None \<Rightarrow> None
      | Some r \<Rightarrow>
          Some \<lparr>result = result r, applications = Suc (applications r), depth = Suc (depth r)\<rparr>)"

text \<open>A body that calls its continuation at most once.\<close>

primrec calls :: "('a, 'b) body \<Rightarrow> bool" where
  "calls (Return b) = False"
| "calls (Call a k) = True"

primrec single_call :: "('a, 'b) body \<Rightarrow> bool" where
  "single_call (Return b) = True"
| "single_call (Call a k) = (\<forall>r. \<not> calls (k r))"


section \<open>Backward lemma index (library/tactic/backward/backward_lemmas.cpp)\<close>

subsection \<open>Expressions and head symbols\<close>

text \<open>
  Modelled from the spec: the kernel's expressions (\<open>is_pi\<close>, \<open>binding_body\<close>,
  \<open>instantiate\<close>, \<open>get_app_fn\<close>, \<open>is_constant\<close>, \<open>is_local\<close>) and \<open>head_index\<close> are
  used by \<open>backward_lemmas.cpp\<close> but defined elsewhere.  The spec has the index "strip
  leading binders, and take the head symbol of the conclusion as the index key", the key
  being "either a global constant name or a local free-variable identity", and names
  metavariables and higher-order heads as the heads that are no concrete symbol.
  Bound variables are de Bruijn indices; a binder holds the type of its variable and its
  body.
\<close>

type_synonym name = string

datatype expr_kind = kVar | kSort | kConstant | kMeta | kLocal | kApp | kLambda | kPi

datatype expr =
    mk_var nat
  | mk_sort
  | mk_constant name
  | mk_metavar name
  | mk_local name
  | mk_app expr expr
  | mk_lambda expr expr
  | mk_pi expr expr

fun kind :: "expr \<Rightarrow> expr_kind" where
  "kind (mk_var i) = kVar"
| "kind mk_sort = kSort"
| "kind (mk_constant n) = kConstant"
| "kind (mk_metavar n) = kMeta"
| "kind (mk_local n) = kLocal"
| "kind (mk_app f a) = kApp"
| "kind (mk_lambda d b) = kLambda"
| "kind (mk_pi d b) = kPi"

definition is_pi :: "expr \<Rightarrow> bool" where
  "is_pi e = (kind e = kPi)"

definition is_constant :: "expr \<Rightarrow> bool" where
  "is_constant e = (kind e = kConstant)"

definition is_local :: "expr \<Rightarrow> bool" where
  "is_local e = (kind e = kLocal)"

fun binding_body :: "expr \<Rightarrow> expr" where
  "binding_body (mk_pi d b) = b"
| "binding_body (mk_lambda d b) = b"
| "binding_body e = e"

fun get_app_fn :: "expr \<Rightarrow> expr" where
  "get_app_fn (mk_app f a) = get_app_fn f"
| "get_app_fn e = e"

fun instantiate_at :: "nat \<Rightarrow> expr \<Rightarrow> expr \<Rightarrow> expr" where
  "instantiate_at n (mk_var i) s =
     (if i = n then s else if n < i then mk_var (i - 1) else mk_var i)"
| "instantiate_at n (mk_app f a) s = mk_app (instantiate_at n f s) (instantiate_at n a s)"
| "instantiate_at n (mk_lambda d b) s =
     mk_lambda (instantiate_at n d s) (instantiate_at (Suc n) b s)"
| "instantiate_at n (mk_pi d b) s = mk_pi (instantiate_at n d s) (instantiate_at (Suc n) b s)"
| "instantiate_at n e s = e"

definition instantiate :: "expr \<Rightarrow> expr \<Rightarrow> expr" where
  "instantiate e s = instantiate_at 0 e s"

record head_index =
  m_kind :: expr_kind
  m_name :: name

definition head_index_of :: "expr \<Rightarrow> head_index" where
  "head_index_of e =
     (let f = get_app_fn e in
      \<lparr>m_kind = kind f,
       m_name = (case f of mk_constant n \<Rightarrow> n | mk_local n \<Rightarrow> n | _ \<Rightarrow> [])\<rparr>)"

subsection \<open>The collaborators\<close>

text \<open>
  The type context, the environment and the attribute store are collaborators of the
  file; what it asks of them is taken as a parameter: the type of a declaration with its
  universe parameters instantiated (\<open>instantiate_type_univ_params\<close> of \<open>ctx.env().get(c)\<close>),
  type inference, \<open>try_to_pi\<close>, the temporary local made from the \<open>n\<close>-th binder that is
  opened, the declarations that carry the attribute \<open>intro\<close>
  (\<open>get_attribute_instances\<close>) and their priorities
  (\<open>get_attribute_instances_by_prio\<close>).
\<close>

record type_context =
  env_type :: "name \<Rightarrow> expr"
  infer :: "expr \<Rightarrow> expr"
  try_to_pi :: "expr \<Rightarrow> expr"
  push_local_from_binding :: "nat \<Rightarrow> expr \<Rightarrow> expr"
  intro_instances :: "name list"
  intro_prios :: "name \<Rightarrow> nat option"

subsection \<open>The target of a lemma\<close>

text \<open>
  The loop of \<open>get_backward_target(ctx, type)\<close> opens the leading binders one by one;
  what \<open>try_to_pi\<close> returns is up to the type context, so nothing bounds the number of
  rounds: the result \<open>None\<close> stands for a loop that does not end.
\<close>

partial_function (option) strip_binders :: "type_context \<Rightarrow> nat \<Rightarrow> expr \<Rightarrow> expr option" where
  "strip_binders ctx n type =
     (if is_pi type
      then strip_binders ctx (Suc n)
             (try_to_pi ctx (instantiate (binding_body type) (push_local_from_binding ctx n type)))
      else Some type)"

text \<open>
  \<open>get_backward_target(type_context &, expr)\<close>: the head of the conclusion when it is a
  constant or a local, no target otherwise.
\<close>

definition get_backward_target :: "type_context \<Rightarrow> expr \<Rightarrow> head_index option option" where
  "get_backward_target ctx type =
     (case strip_binders ctx 0 type of
        None \<Rightarrow> None
      | Some concl \<Rightarrow>
          (let fn = get_app_fn concl in
           if is_constant fn \<or> is_local fn then Some (Some (head_index_of fn))
           else Some None))"

text \<open>\<open>get_backward_target(type_context &, name const &)\<close>\<close>

definition get_backward_target_decl :: "type_context \<Rightarrow> name \<Rightarrow> head_index option option" where
  "get_backward_target_decl ctx c = get_backward_target ctx (try_to_pi ctx (env_type ctx c))"

subsection \<open>Lemmas and their priority\<close>

text \<open>
  Modelled from the spec: \<open>backward_lemma\<close> is declared in a header that is not among the
  sources; a lemma "identifies either a global declaration name or a local hypothesis
  expression".  Only a lemma made from a declaration name is universe polymorphic, and
  only of such a lemma the name is asked.
\<close>

datatype backward_lemma = lemma_of_name name | lemma_of_expr expr

fun is_universe_polymorphic :: "backward_lemma \<Rightarrow> bool" where
  "is_universe_polymorphic (lemma_of_name n) = True"
| "is_universe_polymorphic (lemma_of_expr e) = False"

fun to_name :: "backward_lemma \<Rightarrow> name" where
  "to_name (lemma_of_name n) = n"
| "to_name (lemma_of_expr e) = []"

text \<open>
  \<open>backward_lemma_prio_fn::operator()\<close>.  The function object holds the priorities of the
  attribute instances; the constant \<open>LEAN_DEFAULT_PRIORITY\<close> is defined outside the sources
  and is carried along as \<open>default_priority\<close>.
\<close>

record backward_lemma_prio_fn =
  m_prios :: "name \<Rightarrow> nat option"
  default_priority :: nat

definition prio_fn_apply :: "backward_lemma_prio_fn \<Rightarrow> backward_lemma \<Rightarrow> nat" where
  "prio_fn_apply f r =
     (if is_universe_polymorphic r
      then (case m_prios f (to_name r) of Some prio \<Rightarrow> prio | None \<Rightarrow> default_priority f)
      else default_priority f)"

subsection \<open>The map from heads to lemmas\<close>

text \<open>
  Modelled from the spec: the class of \<open>m_index\<close>, a map from head indices to lists of
  lemmas with the operations \<open>insert\<close>, \<open>erase\<close> and \<open>find\<close>, is not among the sources.
  The spec describes it as "a mapping from HeadIndex to an ordered list of BackwardLemma,
  ordered by descending priority, ties broken by insertion order (priority queue
  semantics)", where \<open>erase\<close> removes "that exact entry" and \<open>find\<close> tells an absent head
  from a present one.  A lemma is in the list of a head once; among equal priorities the
  lemma inserted last comes first; a head whose list becomes empty is dropped.
\<close>

record head_map_prio =
  get_prio :: backward_lemma_prio_fn
  m_map :: "head_index \<rightharpoonup> backward_lemma list"

fun insert_prio ::
  "backward_lemma_prio_fn \<Rightarrow> backward_lemma \<Rightarrow> backward_lemma list \<Rightarrow> backward_lemma list"
where
  "insert_prio f v [] = [v]"
| "insert_prio f v (x # xs) =
     (if prio_fn_apply f x \<le> prio_fn_apply f v then v # x # xs
      else x # insert_prio f v xs)"

definition head_map_insert :: "head_index \<Rightarrow> backward_lemma \<Rightarrow> head_map_prio \<Rightarrow> head_map_prio" where
  "head_map_insert h v m =
     (case m_map m h of
        Some vs \<Rightarrow>
          m\<lparr>m_map := (m_map m)(h \<mapsto> insert_prio (get_prio m) v (filter (\<lambda>v2. v \<noteq> v2) vs))\<rparr>
      | None \<Rightarrow> m\<lparr>m_map := (m_map m)(h \<mapsto> [v])\<rparr>)"

definition head_map_erase :: "head_index \<Rightarrow> backward_lemma \<Rightarrow> head_map_prio \<Rightarrow> head_map_prio" where
  "head_map_erase h v m =
     (case m_map m h of
        Some vs \<Rightarrow>
          (let new_vs = filter (\<lambda>v2. v \<noteq> v2) vs in
           if new_vs = [] then m\<lparr>m_map := (m_map m)(h := None)\<rparr>
           else m\<lparr>m_map := (m_map m)(h \<mapsto> new_vs)\<rparr>)
      | None \<Rightarrow> m)"

definition head_map_find :: "head_map_prio \<Rightarrow> head_index \<Rightarrow> backward_lemma list option" where
  "head_map_find m h = m_map m h"

subsection \<open>The index\<close>

text \<open>
  The index is the member \<open>m_index\<close>.  The trace stream \<open>tout()\<close> is outside the index; to
  say what an operation writes to it, the operations are modelled on a state that holds
  the index and the lines written so far.
\<close>

type_synonym backward_lemma_index = head_map_prio

record index_state =
  m_index :: backward_lemma_index
  tout :: "string list"

text \<open>
  Modelled from the spec: the macro \<open>lean_trace\<close> is defined outside the sources; a
  discarded lemma is reported to the trace sink "with a diagnostic trace, not a fatal
  error".
\<close>

definition discard_message :: "name \<Rightarrow> string" where
  "discard_message c =
     ''discarding [intro] lemma '' @ [CHR 0x27] @ c @ [CHR 0x27] @ '', failed to find target type''"

definition trace_discard :: "name \<Rightarrow> index_state \<Rightarrow> index_state" where
  "trace_discard c st = st\<lparr>tout := tout st @ [discard_message c]\<rparr>"

definition index_add :: "head_index \<Rightarrow> backward_lemma \<Rightarrow> index_state \<Rightarrow> index_state" where
  "index_add h v st = st\<lparr>m_index := head_map_insert h v (m_index st)\<rparr>"

definition index_remove :: "head_index \<Rightarrow> backward_lemma \<Rightarrow> index_state \<Rightarrow> index_state" where
  "index_remove h v st = st\<lparr>m_index := head_map_erase h v (m_index st)\<rparr>"

text \<open>
  The loop of the constructor \<open>backward_lemma_index::backward_lemma_index\<close>: \<open>i\<close> counts
  down from the number of lemmas, and the lemma at position \<open>i - 1\<close> is handled next.  A
  lemma without target, or with a target that is no constant, is traced; the others are
  inserted.
\<close>

fun index_lemmas ::
  "type_context \<Rightarrow> name list \<Rightarrow> nat \<Rightarrow> index_state \<Rightarrow> index_state option"
where
  "index_lemmas ctx lemmas 0 st = Some st"
| "index_lemmas ctx lemmas (Suc i) st =
     (case get_backward_target_decl ctx (lemmas ! i) of
        None \<Rightarrow> None
      | Some None \<Rightarrow> index_lemmas ctx lemmas i (trace_discard (lemmas ! i) st)
      | Some (Some target) \<Rightarrow>
          if m_kind target \<noteq> kConstant
          then index_lemmas ctx lemmas i (trace_discard (lemmas ! i) st)
          else index_lemmas ctx lemmas i (index_add target (lemma_of_name (lemmas ! i)) st))"

text \<open>
  The constructor: the index starts empty, with the priorities of the attribute
  instances; \<open>out\<close> is what the trace stream holds before.
\<close>

definition mk_backward_lemma_index ::
  "nat \<Rightarrow> type_context \<Rightarrow> string list \<Rightarrow> index_state option"
where
  "mk_backward_lemma_index dflt ctx out =
     index_lemmas ctx (intro_instances ctx) (length (intro_instances ctx))
       \<lparr>m_index = \<lparr>get_prio = \<lparr>m_prios = intro_prios ctx, default_priority = dflt\<rparr>,
                   m_map = Map.empty\<rparr>,
        tout = out\<rparr>"

text \<open>\<open>backward_lemma_index::insert\<close>\<close>

definition index_insert :: "type_context \<Rightarrow> expr \<Rightarrow> index_state \<Rightarrow> index_state option" where
  "index_insert ctx href st =
     (case get_backward_target ctx (infer ctx href) of
        None \<Rightarrow> None
      | Some None \<Rightarrow> Some st
      | Some (Some target) \<Rightarrow> Some (index_add target (lemma_of_expr href) st))"

text \<open>\<open>backward_lemma_index::erase\<close>\<close>

definition index_erase :: "type_context \<Rightarrow> expr \<Rightarrow> index_state \<Rightarrow> index_state option" where
  "index_erase ctx href st =
     (case get_backward_target ctx (infer ctx href) of
        None \<Rightarrow> None
      | Some None \<Rightarrow> Some st
      | Some (Some target) \<Rightarrow> Some (index_remove target (lemma_of_expr href) st))"

text \<open>\<open>backward_lemma_index::find\<close>\<close>

definition index_find :: "index_state \<Rightarrow> head_index \<Rightarrow> backward_lemma list" where
  "index_find st h = (case head_map_find (m_index st) h of Some r \<Rightarrow> r | None \<Rightarrow> [])"

subsection \<open>The attribute\<close>

text \<open>
  The function that \<open>initialize_backward_lemmas\<close> registers with the attribute \<open>intro\<close>:
  it is run when the attribute is set on the declaration \<open>c\<close>, and either throws or
  returns the environment as it is.
\<close>

datatype exception = Exception string

definition invalid_intro_message :: "name \<Rightarrow> string" where
  "invalid_intro_message c =
     ''invalid [intro] attribute for '' @ [CHR 0x27] @ c @ [CHR 0x27]
       @ '', head symbol of resulting type must be a constant''"

fun no_constant_target :: "head_index option \<Rightarrow> bool" where
  "no_constant_target None = True"
| "no_constant_target (Some h) = (m_kind h \<noteq> kConstant)"

definition intro_attribute_handler ::
  "type_context \<Rightarrow> 'env \<Rightarrow> name \<Rightarrow> (exception + 'env) option"
where
  "intro_attribute_handler ctx env c =
     (case get_backward_target_decl ctx c of
        None \<Rightarrow> None
      | Some index \<Rightarrow>
          if no_constant_target index then Some (Inl (Exception (invalid_intro_message c)))
          else Some (Inr env))"

section \<open>Notions used to state the properties\<close>

text \<open>The entries of a tree from left to right, and the keys in the order node, left, right.\<close>

fun entries :: "('k, 'v) rbnode \<Rightarrow> ('k \<times> 'v) list" where
  "entries Leaf = []"
| "entries (RedNode l k v r) = entries l @ (k, v) # entries r"
| "entries (BlackNode l k v r) = entries l @ (k, v) # entries r"

fun preorder :: "('k, 'v) rbnode \<Rightarrow> 'k list" where
  "preorder Leaf = []"
| "preorder (RedNode l k v r) = k # preorder l @ preorder r"
| "preorder (BlackNode l k v r) = k # preorder l @ preorder r"

text \<open>
  The comparator contract of the spec: irreflexive, transitive, and with a transitive
  "neither is less" relation, which is the equality the tree works with.
\<close>

definition strict_weak_order :: "('k \<Rightarrow> 'k \<Rightarrow> bool) \<Rightarrow> bool" where
  "strict_weak_order lt \<longleftrightarrow>
     (\<forall>a. \<not> lt a a) \<and>
     (\<forall>a b c. lt a b \<longrightarrow> lt b c \<longrightarrow> lt a c) \<and>
     (\<forall>a b c. \<not> lt a b \<longrightarrow> \<not> lt b a \<longrightarrow> \<not> lt b c \<longrightarrow> \<not> lt c b \<longrightarrow> \<not> lt a c \<and> \<not> lt c a)"

text \<open>
  Invariant (c) of the data model: the keys of the left subtree precede the key of the
  node, those of the right subtree follow it.
\<close>

fun ordered :: "('k \<Rightarrow> 'k \<Rightarrow> bool) \<Rightarrow> ('k, 'v) rbnode \<Rightarrow> bool" where
  "ordered lt Leaf = True"
| "ordered lt (RedNode l k v r) =
     (ordered lt l \<and> ordered lt r
      \<and> list_all (\<lambda>e. lt (fst e) k) (entries l) \<and> list_all (\<lambda>e. lt k (fst e)) (entries r))"
| "ordered lt (BlackNode l k v r) =
     (ordered lt l \<and> ordered lt r
      \<and> list_all (\<lambda>e. lt (fst e) k) (entries l) \<and> list_all (\<lambda>e. lt k (fst e)) (entries r))"

text \<open>Invariant (a): no red node has a red child.\<close>

fun no_red_red :: "('k, 'v) rbnode \<Rightarrow> bool" where
  "no_red_red Leaf = True"
| "no_red_red (RedNode l k v r) =
     (rbnode_get_color l = Black \<and> rbnode_get_color r = Black \<and> no_red_red l \<and> no_red_red r)"
| "no_red_red (BlackNode l k v r) = (no_red_red l \<and> no_red_red r)"

text \<open>
  Invariant (b): \<open>black_counts\<close> lists, for every path from the root to a leaf, the number
  of black nodes on it; the black height is uniform when all these numbers agree.
\<close>

fun black_counts :: "('k, 'v) rbnode \<Rightarrow> nat list" where
  "black_counts Leaf = [0]"
| "black_counts (RedNode l k v r) = black_counts l @ black_counts r"
| "black_counts (BlackNode l k v r) = map Suc (black_counts l @ black_counts r)"

definition uniform_black_height :: "('k, 'v) rbnode \<Rightarrow> bool" where
  "uniform_black_height t =
     (case black_counts t of [] \<Rightarrow> True | h # hs \<Rightarrow> list_all (\<lambda>n. n = h) hs)"

text \<open>The shape of a tree: its structure and its colors, without keys and values.\<close>

fun shape :: "('k, 'v) rbnode \<Rightarrow> (unit, unit) rbnode" where
  "shape Leaf = Leaf"
| "shape (RedNode l k v r) = RedNode (shape l) () () (shape r)"
| "shape (BlackNode l k v r) = BlackNode (shape l) () () (shape r)"

text \<open>
  The trees of the lifecycle of the spec: "a tree is created empty, grows only via insert".
\<close>

inductive well_formed :: "('k \<Rightarrow> 'k \<Rightarrow> bool) \<Rightarrow> ('k, 'v) rbnode \<Rightarrow> bool" for lt where
  leaf_wff: "well_formed lt Leaf"
| insert_wff: "well_formed lt t \<Longrightarrow> well_formed lt (rbnode_insert lt t k v)"

text \<open>
  The elements that a short-circuiting test examines when it runs through a list from the
  front: up to and including the first element that decides the answer.
\<close>

fun checked_all :: "('k \<Rightarrow> bool) \<Rightarrow> 'k list \<Rightarrow> 'k list" where
  "checked_all p [] = []"
| "checked_all p (x # xs) = (if p x then x # checked_all p xs else [x])"

fun checked_any :: "('k \<Rightarrow> bool) \<Rightarrow> 'k list \<Rightarrow> 'k list" where
  "checked_any p [] = []"
| "checked_any p (x # xs) = (if p x then [x] else x # checked_any p xs)"

text \<open>
  For the lemma index: the lemmas that the constructor leaves out, the states that an
  index goes through (built once, then extended and contracted with local hypotheses),
  and the order "most relevant first".
\<close>

definition discarded :: "type_context \<Rightarrow> name \<Rightarrow> bool" where
  "discarded ctx c =
     (case get_backward_target_decl ctx c of
        None \<Rightarrow> False
      | Some target \<Rightarrow> no_constant_target target)"

inductive index_reachable :: "index_state \<Rightarrow> bool" where
  built: "mk_backward_lemma_index dflt ctx out = Some st \<Longrightarrow> index_reachable st"
| inserted: "index_reachable st \<Longrightarrow> index_insert ctx href st = Some st' \<Longrightarrow> index_reachable st'"
| erased: "index_reachable st \<Longrightarrow> index_erase ctx href st = Some st' \<Longrightarrow> index_reachable st'"

definition by_priority :: "backward_lemma_prio_fn \<Rightarrow> backward_lemma \<Rightarrow> backward_lemma \<Rightarrow> bool" where
  "by_priority f a b = (prio_fn_apply f b \<le> prio_fn_apply f a)"

definition lists_sorted :: "head_map_prio \<Rightarrow> bool" where
  "lists_sorted m = (\<forall>h vs. m_map m h = Some vs \<longrightarrow> sorted_wrt (by_priority (get_prio m)) vs)"

text \<open>
  Insertion and lookup on a list of entries sorted by key, against which the tree
  operations are measured.
\<close>

fun upd_list :: "('k \<Rightarrow> 'k \<Rightarrow> bool) \<Rightarrow> 'k \<Rightarrow> 'v \<Rightarrow> ('k \<times> 'v) list \<Rightarrow> ('k \<times> 'v) list" where
  "upd_list lt k v [] = [(k, v)]"
| "upd_list lt k v (e # es) =
     (if lt k (fst e) then (k, v) # e # es
      else if lt (fst e) k then e # upd_list lt k v es
      else (k, v) # es)"

fun find_list :: "('k \<Rightarrow> 'k \<Rightarrow> bool) \<Rightarrow> 'k \<Rightarrow> ('k \<times> 'v) list \<Rightarrow> ('k \<times> 'v) option" where
  "find_list lt x [] = None"
| "find_list lt x (e # es) =
     (if lt x (fst e) then None
      else if lt (fst e) x then find_list lt x es
      else Some e)"

text \<open>
  Auxiliary invariants for the proofs: the black height along the left spine, the
  recursive form of the uniform black height, and the color invariant below the root.
\<close>

fun bh :: "('k, 'v) rbnode \<Rightarrow> nat" where
  "bh Leaf = 0"
| "bh (RedNode l k v r) = bh l"
| "bh (BlackNode l k v r) = Suc (bh l)"

fun invh :: "('k, 'v) rbnode \<Rightarrow> bool" where
  "invh Leaf = True"
| "invh (RedNode l k v r) = (invh l \<and> invh r \<and> bh l = bh r)"
| "invh (BlackNode l k v r) = (invh l \<and> invh r \<and> bh l = bh r)"

fun invc2 :: "('k, 'v) rbnode \<Rightarrow> bool" where
  "invc2 Leaf = True"
| "invc2 (RedNode l k v r) = (no_red_red l \<and> no_red_red r)"
| "invc2 (BlackNode l k v r) = (no_red_red l \<and> no_red_red r)"

section \<open>Properties of the bounded fixpoint\<close>

lemma bfix_zero: "bfix base rec 0 = base"
  by (rule ext) (simp add: bfix.simps)

lemma bfix_Suc: "bfix base rec (Suc n) = rec (bfix base rec n)"
  by (rule ext) (simp add: bfix.simps [of base rec "Suc n"])

lemma run_body_total:
  assumes "\<And>a. \<exists>r. f a = Some r \<and> result r = g a \<and> depth r \<le> n"
  shows "\<exists>r. run_body f p = Some r \<and> result r = apply_body g p \<and> depth r \<le> n"
proof (induction p)
  case (Return b)
  then show ?case by simp
next
  case (Call a k)
  obtain r where r: "f a = Some r" "result r = g a" "depth r \<le> n"
    using assms by blast
  obtain r' where r': "run_body f (k (g a)) = Some r'" "result r' = apply_body g (k (g a))"
      "depth r' \<le> n"
    using Call [of "k (g a)"] by auto
  show ?case using r r' by simp
qed

lemma step_of_apply: "step_of sp f x = apply_body f (sp x)"
  by (simp add: step_of_def)

lemma bfix_run_total:
  assumes "\<And>y. obase y = Some (base y)"
  shows "\<exists>r. bfix_run obase sp fuel x = Some r
           \<and> result r = bfix base (step_of sp) fuel x \<and> depth r \<le> fuel"
proof (induction fuel arbitrary: x)
  case 0
  then show ?case using assms [of x] by (simp add: bfix_zero)
next
  case (Suc n)
  obtain r where r: "run_body (bfix_run obase sp n) (sp x) = Some r"
      "result r = apply_body (bfix base (step_of sp) n) (sp x)" "depth r \<le> n"
    using run_body_total [of "bfix_run obase sp n" "bfix base (step_of sp) n" n "sp x"] Suc
    by blast
  have "bfix base (step_of sp) (Suc n) x = apply_body (bfix base (step_of sp) n) (sp x)"
    unfolding bfix_Suc by (rule step_of_apply)
  with r show ?case by simp
qed

lemma run_body_single:
  assumes "single_call p" and "run_body f p = Some r"
  shows "applications r = 0 \<or> (\<exists>a r0. f a = Some r0 \<and> applications r = applications r0)"
proof (cases p)
  case (Return b)
  with assms(2) show ?thesis by auto
next
  case (Call a k)
  with assms(1) obtain b where kb: "\<And>y. \<exists>b. k y = Return b"
    by (metis body.exhaust calls.simps(2) single_call.simps(2))
  from assms(2) Call obtain r0 where r0: "f a = Some r0"
    by (auto split: option.splits)
  obtain b' where "k (result r0) = Return b'" using kb by blast
  with assms(2) Call r0 have "applications r = applications r0" by auto
  with r0 show ?thesis by blast
qed

lemma bfix_run_single:
  assumes "\<And>y. single_call (sp y)"
  shows "bfix_run obase sp fuel x = Some r \<Longrightarrow> applications r \<le> fuel"
proof (induction fuel arbitrary: x r)
  case 0
  then show ?case by (auto split: option.splits)
next
  case (Suc n)
  from Suc.prems obtain r1 where r1: "run_body (bfix_run obase sp n) (sp x) = Some r1"
      and ap: "applications r = Suc (applications r1)"
    by (auto split: option.splits)
  have "applications r1 \<le> n"
    using run_body_single [OF assms [of x] r1] Suc.IH by auto
  with ap show ?case by simp
qed

text \<open>
  C9 (as the code has it): without fuel the bounded fixpoint is the base function, with
  fuel \<open>n + 1\<close> it is the step function applied to the bounded fixpoint with fuel \<open>n\<close> and
  to the argument.  When the base function returns on every argument (and every
  application of the step function returns once its calls of the continuation have
  returned), the bounded
  fixpoint returns for every fuel, with the result of \<open>bfix\<close>; the applications of the
  step function are nested at most \<open>fuel\<close> deep, and there are at most \<open>fuel\<close> of them
  when every application calls its continuation at most once.  Without that condition
  the number of applications is not bounded by the fuel, as the example after the
  witness shows: a step function that calls its continuation twice is applied 7 times
  with fuel 3.
\<close>

theorem bfix_bounded:
  assumes "\<And>y. obase y = Some (base y)"
  shows "bfix base rec 0 x = base x
         \<and> bfix base rec (Suc n) x = rec (bfix base rec n) x
         \<and> (\<exists>r. bfix_run obase sp fuel x = Some r
               \<and> result r = bfix base (step_of sp) fuel x
               \<and> depth r \<le> fuel
               \<and> ((\<forall>y. single_call (sp y)) \<longrightarrow> applications r \<le> fuel))"
proof -
  obtain r where r: "bfix_run obase sp fuel x = Some r"
      "result r = bfix base (step_of sp) fuel x" "depth r \<le> fuel"
    using bfix_run_total [of obase base sp fuel x] assms by blast
  have "(\<forall>y. single_call (sp y)) \<longrightarrow> applications r \<le> fuel"
    using bfix_run_single [of sp obase fuel x r] r(1) by blast
  with r show ?thesis by (simp add: bfix_zero bfix_Suc)
qed

theorem bfix_bounded_witness:
  "bfix_run (\<lambda>y. Some (0::nat)) (\<lambda>y::nat. if y = 0 then Return 1 else Call (y - 1) (\<lambda>r. Return (y * r))) 5 3
     = Some \<lparr>result = 6, applications = 4, depth = 4\<rparr>
   \<and> bfix (\<lambda>y. 0::nat) (step_of (\<lambda>y::nat. if y = 0 then Return 1 else Call (y - 1) (\<lambda>r. Return (y * r)))) 5 3 = 6
   \<and> bfix_run (\<lambda>y. Some (0::nat)) (\<lambda>y::nat. if y = 0 then Return 1 else Call (y - 1) (\<lambda>r. Return (y * r))) 2 3
     = Some \<lparr>result = 0, applications = 2, depth = 2\<rparr>
   \<and> bfix_run (\<lambda>y. None) (\<lambda>y::nat. if y = 0 then Return 1 else Call (y - 1) (\<lambda>r::nat. Return (y * r))) 2 3
     = None"
proof -
  let ?sp = "\<lambda>y::nat. if y = 0 then Return 1 else Call (y - 1) (\<lambda>r::nat. Return (y * r))"
  have sc: "\<forall>y. single_call (?sp y)" by simp
  have e5: "bfix_run (\<lambda>y. Some (0::nat)) ?sp 5 3 = Some \<lparr>result = 6, applications = 4, depth = 4\<rparr>"
    by (simp add: eval_nat_numeral)
  have e2: "bfix_run (\<lambda>y. Some (0::nat)) ?sp 2 3 = Some \<lparr>result = 0, applications = 2, depth = 2\<rparr>"
    by (simp add: eval_nat_numeral)
  have e0: "bfix_run (\<lambda>y. None) ?sp 2 3 = None"
    by (simp add: eval_nat_numeral)
  show ?thesis
    using bfix_bounded [where obase = "\<lambda>y. Some (0::nat)" and base = "\<lambda>y. 0" and sp = ?sp
        and fuel = 5 and x = 3 and rec = "step_of ?sp" and n = 4] sc e5 e2 e0
    by simp
qed

theorem bfix_applications_counterexample:
  "bfix_run (\<lambda>y::unit. Some (0::nat)) (\<lambda>y. Call y (\<lambda>a. Call y (\<lambda>b. Return (Suc (a + b))))) 3 ()
     = Some \<lparr>result = 7, applications = 7, depth = 3\<rparr>
   \<and> bfix (\<lambda>y::unit. 0::nat) (\<lambda>f y. Suc (f y + f y)) 3 () = 7
   \<and> \<not> (7::nat) \<le> 3"
  by (simp add: eval_nat_numeral bfix_Suc bfix_zero)

section \<open>Properties of the red-black tree\<close>

lemma swo_irrefl: "strict_weak_order lt \<Longrightarrow> \<not> lt a a"
  by (simp add: strict_weak_order_def)

lemma swo_trans: "strict_weak_order lt \<Longrightarrow> lt a b \<Longrightarrow> lt b c \<Longrightarrow> lt a c"
  unfolding strict_weak_order_def by blast

lemma swo_asym: "strict_weak_order lt \<Longrightarrow> lt a b \<Longrightarrow> \<not> lt b a"
  using swo_irrefl swo_trans by metis

lemma swo_equiv_lt: "strict_weak_order lt \<Longrightarrow> \<not> lt k x \<Longrightarrow> \<not> lt x k \<Longrightarrow> lt x y \<Longrightarrow> lt k y"
  unfolding strict_weak_order_def by metis

lemma swo_lt_equiv: "strict_weak_order lt \<Longrightarrow> \<not> lt k x \<Longrightarrow> \<not> lt x k \<Longrightarrow> lt y x \<Longrightarrow> lt y k"
  unfolding strict_weak_order_def by metis

lemma sorted_ordered:
  "strict_weak_order lt \<Longrightarrow> ordered lt t \<longleftrightarrow> sorted_wrt lt (map fst (entries t))"
  apply (induction t)
  apply (auto simp: sorted_wrt_append list_all_iff dest: swo_trans)
  done

lemma entries_balance1:
  "entries (rbnode_balance1 l ky vy r kv vv t) = entries l @ (ky, vy) # entries r @ (kv, vv) # entries t"
  by (induction l ky vy r kv vv t rule: rbnode_balance1.induct) simp_all

lemma entries_balance2:
  "entries (rbnode_balance2 l ky vy r kv vv t) = entries t @ (kv, vv) # entries l @ (ky, vy) # entries r"
  by (induction l ky vy r kv vv t rule: rbnode_balance2.induct) simp_all

lemma entries_balance1_node:
  "n \<noteq> Leaf \<Longrightarrow> entries (rbnode_balance1_node n kv vv t) = entries n @ (kv, vv) # entries t"
  by (cases n) (simp_all add: entries_balance1)

lemma entries_balance2_node:
  "n \<noteq> Leaf \<Longrightarrow> entries (rbnode_balance2_node n kv vv t) = entries t @ (kv, vv) # entries n"
  by (cases n) (simp_all add: entries_balance2)

lemma balance1_not_Leaf: "rbnode_balance1 l ky vy r kv vv t \<noteq> Leaf"
  by (induction l ky vy r kv vv t rule: rbnode_balance1.induct) simp_all

lemma balance2_not_Leaf: "rbnode_balance2 l ky vy r kv vv t \<noteq> Leaf"
  by (induction l ky vy r kv vv t rule: rbnode_balance2.induct) simp_all

lemma balance1_node_not_Leaf: "n \<noteq> Leaf \<Longrightarrow> rbnode_balance1_node n kv vv t \<noteq> Leaf"
  by (cases n) (simp_all add: balance1_not_Leaf)

lemma balance2_node_not_Leaf: "n \<noteq> Leaf \<Longrightarrow> rbnode_balance2_node n kv vv t \<noteq> Leaf"
  by (cases n) (simp_all add: balance2_not_Leaf)

lemma ins_not_Leaf: "rbnode_ins lt t k v \<noteq> Leaf"
  by (induction t) (simp_all add: balance1_node_not_Leaf balance2_node_not_Leaf)

lemma upd_list_append:
  assumes "strict_weak_order lt" "list_all (\<lambda>e. lt (fst e) y) xs"
  shows "upd_list lt k v (xs @ (y, w) # ys) =
         (if lt k y then upd_list lt k v xs @ (y, w) # ys
          else xs @ upd_list lt k v ((y, w) # ys))"
  using assms(2)
proof (induction xs)
  case Nil
  then show ?case by simp
next
  case (Cons e xs)
  then have ey: "lt (fst e) y" by simp
  show ?case
  proof (cases "lt k (fst e)")
    case True
    then have "lt k y" using ey swo_trans [OF assms(1)] by blast
    with True show ?thesis by simp
  next
    case False
    show ?thesis
    proof (cases "lt (fst e) k")
      case True
      with False Cons show ?thesis by simp
    next
      case nlt: False
      have "lt k y" using swo_equiv_lt [OF assms(1) False nlt ey] .
      with False nlt show ?thesis by simp
    qed
  qed
qed

lemma entries_ins:
  assumes "strict_weak_order lt"
  shows "ordered lt t \<Longrightarrow> entries (rbnode_ins lt t k v) = upd_list lt k v (entries t)"
proof (induction t)
  case Leaf
  then show ?case by simp
next
  case (RedNode a ky vy b)
  then show ?case
    by (simp add: upd_list_append [OF assms])
next
  case (BlackNode a ky vy b)
  then show ?case
    by (simp add: upd_list_append [OF assms] entries_balance1_node entries_balance2_node ins_not_Leaf)
qed

lemma set_upd_list: "x \<in> set (upd_list lt k v es) \<Longrightarrow> fst x = k \<or> x \<in> set es"
  by (induction es) (auto split: if_splits)

lemma sorted_upd_list:
  assumes "strict_weak_order lt"
  shows "sorted_wrt lt (map fst es) \<Longrightarrow> sorted_wrt lt (map fst (upd_list lt k v es))"
proof (induction es)
  case Nil
  then show ?case by simp
next
  case (Cons e es)
  have tl: "\<forall>x \<in> set es. lt (fst e) (fst x)" and srt: "sorted_wrt lt (map fst es)"
    using Cons.prems by auto
  show ?case
  proof (cases "lt k (fst e)")
    case True
    then have "\<forall>x \<in> set es. lt k (fst x)"
      using tl swo_trans [OF assms] by blast
    with True Cons.prems show ?thesis by simp
  next
    case False
    show ?thesis
    proof (cases "lt (fst e) k")
      case True
      have "\<forall>x \<in> set (upd_list lt k v es). lt (fst e) (fst x)"
        using set_upd_list [of _ lt k v es] tl True by blast
      with False True Cons.IH [OF srt] show ?thesis by simp
    next
      case nlt: False
      have "\<forall>x \<in> set es. lt k (fst x)"
        using tl swo_equiv_lt [OF assms False nlt] by blast
      with False nlt srt show ?thesis by simp
    qed
  qed
qed

lemma ordered_ins:
  "strict_weak_order lt \<Longrightarrow> ordered lt t \<Longrightarrow> ordered lt (rbnode_ins lt t k v)"
  by (simp add: sorted_ordered entries_ins sorted_upd_list)

lemma entries_mk_insert_result: "entries (rbnode_mk_insert_result c t) = entries t"
  by (cases t) simp_all

lemma entries_insert:
  "strict_weak_order lt \<Longrightarrow> ordered lt t \<Longrightarrow>
   entries (rbnode_insert lt t k v) = upd_list lt k v (entries t)"
  by (simp add: rbnode_insert_def entries_mk_insert_result entries_ins)

lemma ordered_insert:
  "strict_weak_order lt \<Longrightarrow> ordered lt t \<Longrightarrow> ordered lt (rbnode_insert lt t k v)"
  by (simp add: sorted_ordered entries_insert sorted_upd_list)

lemma find_list_append:
  assumes "strict_weak_order lt" "list_all (\<lambda>e. lt (fst e) y) xs"
  shows "find_list lt x (xs @ (y, w) # ys) =
         (if lt x y then find_list lt x xs else find_list lt x ((y, w) # ys))"
  using assms(2)
proof (induction xs)
  case Nil
  then show ?case by simp
next
  case (Cons e xs)
  then have ey: "lt (fst e) y" by simp
  show ?case
  proof (cases "lt x (fst e)")
    case True
    then have "lt x y" using ey swo_trans [OF assms(1)] by blast
    with True show ?thesis by simp
  next
    case False
    show ?thesis
    proof (cases "lt (fst e) x")
      case True
      with False Cons show ?thesis by simp
    next
      case nlt: False
      have "lt x y" using swo_equiv_lt [OF assms(1) False nlt ey] .
      with False nlt show ?thesis by simp
    qed
  qed
qed

lemma find_core_entries:
  assumes "strict_weak_order lt"
  shows "ordered lt t \<Longrightarrow> rbnode_find_core lt t x = find_list lt x (entries t)"
  by (induction t) (simp_all add: find_list_append [OF assms])

lemma find_list_upd_list:
  "\<not> lt k k \<Longrightarrow> find_list lt k (upd_list lt k v es) = Some (k, v)"
  by (induction es) simp_all

lemma find_core_insert:
  assumes "strict_weak_order lt" "ordered lt t"
  shows "rbnode_find_core lt (rbnode_insert lt t k v) k = Some (k, v)"
  by (simp add: find_core_entries [OF assms(1) ordered_insert [OF assms]]
      entries_insert [OF assms] find_list_upd_list swo_irrefl [OF assms(1)])

lemma rev_fold_cons_entries: "rbnode_rev_fold_cons t acc = map fst (entries t) @ acc"
  by (induction t arbitrary: acc) simp_all

lemma to_list_entries: "rbtree_to_list t = map fst (entries t)"
  by (simp add: rbtree_to_list_def rev_fold_cons_entries)

lemma ordered_foldl_insert:
  "strict_weak_order lt \<Longrightarrow> ordered lt t \<Longrightarrow> ordered lt (list_foldl_insert lt t ks)"
  by (induction ks arbitrary: t) (simp_all add: ordered_insert)

lemma ordered_from_list:
  "strict_weak_order lt \<Longrightarrow> ordered lt (rbtree_from_list ks lt)"
  by (simp add: rbtree_from_list_def ordered_foldl_insert)

lemma swo_less_nat: "strict_weak_order ((<) :: nat \<Rightarrow> nat \<Rightarrow> bool)"
  by (auto simp: strict_weak_order_def)

lemma black_counts_nonempty: "black_counts t \<noteq> []"
  by (induction t) simp_all

lemma bh_in_counts: "bh t \<in> set (black_counts t)"
  by (induction t) auto

lemma uniform_iff: "uniform_black_height t \<longleftrightarrow> (\<forall>n \<in> set (black_counts t). n = bh t)"
proof -
  obtain h hs where eq: "black_counts t = h # hs"
    using black_counts_nonempty [of t] by (cases "black_counts t") auto
  have mem: "bh t = h \<or> bh t \<in> set hs" using bh_in_counts [of t] eq by simp
  show ?thesis
    unfolding uniform_black_height_def eq using mem by (simp add: list_all_iff) metis
qed

lemma invh_uniform: "invh t \<longleftrightarrow> uniform_black_height t"
  unfolding uniform_iff
proof (induction t)
  case Leaf
  then show ?case by simp
next
  case (RedNode l k v r)
  then show ?case
    using bh_in_counts [of l] bh_in_counts [of r] by (simp add: ball_Un) metis
next
  case (BlackNode l k v r)
  then show ?case
    using bh_in_counts [of l] bh_in_counts [of r] by (simp add: ball_Un) metis
qed

lemma color_not_Red: "c \<noteq> Red \<longleftrightarrow> c = Black"
  by (cases c) simp_all

lemma no_red_red_invc2: "no_red_red t \<Longrightarrow> invc2 t"
  by (cases t) simp_all

lemma invc_balance1:
  "no_red_red l \<Longrightarrow> no_red_red r \<Longrightarrow> no_red_red t \<Longrightarrow>
   no_red_red (rbnode_balance1 l ky vy r kv vv t)"
  by (induction l ky vy r kv vv t rule: rbnode_balance1.induct) simp_all

lemma invc_balance2:
  "no_red_red l \<Longrightarrow> no_red_red r \<Longrightarrow> no_red_red t \<Longrightarrow>
   no_red_red (rbnode_balance2 l ky vy r kv vv t)"
  by (induction l ky vy r kv vv t rule: rbnode_balance2.induct) simp_all

lemma invc_balance1_node:
  "invc2 n \<Longrightarrow> no_red_red t \<Longrightarrow> no_red_red (rbnode_balance1_node n kv vv t)"
  by (cases n) (simp_all add: invc_balance1)

lemma invc_balance2_node:
  "invc2 n \<Longrightarrow> no_red_red t \<Longrightarrow> no_red_red (rbnode_balance2_node n kv vv t)"
  by (cases n) (simp_all add: invc_balance2)

lemma invc_ins:
  "no_red_red t \<Longrightarrow>
   invc2 (rbnode_ins lt t k v) \<and> (rbnode_get_color t = Black \<longrightarrow> no_red_red (rbnode_ins lt t k v))"
proof (induction t)
  case Leaf
  then show ?case by simp
next
  case (RedNode a ky vy b)
  then show ?case by simp
next
  case (BlackNode a ky vy b)
  then show ?case
    by (simp add: invc_balance1_node invc_balance2_node no_red_red_invc2 color_not_Red)
qed

lemma color_ins_red: "rbnode_get_color t = Red \<Longrightarrow> rbnode_get_color (rbnode_ins lt t k v) = Red"
  by (cases t) simp_all

lemma invh_balance1:
  "invh l \<Longrightarrow> invh r \<Longrightarrow> invh t \<Longrightarrow> bh l = bh r \<Longrightarrow> bh r = bh t \<Longrightarrow>
   invh (rbnode_balance1 l ky vy r kv vv t) \<and> bh (rbnode_balance1 l ky vy r kv vv t) = Suc (bh t)"
  by (induction l ky vy r kv vv t rule: rbnode_balance1.induct) simp_all

lemma invh_balance2:
  "invh l \<Longrightarrow> invh r \<Longrightarrow> invh t \<Longrightarrow> bh l = bh r \<Longrightarrow> bh r = bh t \<Longrightarrow>
   invh (rbnode_balance2 l ky vy r kv vv t) \<and> bh (rbnode_balance2 l ky vy r kv vv t) = Suc (bh t)"
  by (induction l ky vy r kv vv t rule: rbnode_balance2.induct) simp_all

lemma invh_balance1_node:
  "rbnode_get_color n = Red \<Longrightarrow> invh n \<Longrightarrow> invh t \<Longrightarrow> bh n = bh t \<Longrightarrow>
   invh (rbnode_balance1_node n kv vv t) \<and> bh (rbnode_balance1_node n kv vv t) = Suc (bh t)"
  by (cases n) (simp_all add: invh_balance1)

lemma invh_balance2_node:
  "rbnode_get_color n = Red \<Longrightarrow> invh n \<Longrightarrow> invh t \<Longrightarrow> bh n = bh t \<Longrightarrow>
   invh (rbnode_balance2_node n kv vv t) \<and> bh (rbnode_balance2_node n kv vv t) = Suc (bh t)"
  by (cases n) (simp_all add: invh_balance2)

lemma invh_ins:
  "invh t \<Longrightarrow> invh (rbnode_ins lt t k v) \<and> bh (rbnode_ins lt t k v) = bh t"
proof (induction t)
  case Leaf
  then show ?case by simp
next
  case (RedNode a ky vy b)
  then show ?case by simp
next
  case (BlackNode a ky vy b)
  then show ?case
    by (simp add: invh_balance1_node invh_balance2_node color_ins_red color_not_Red)
qed

lemma invc_mk_insert_result: "invc2 t \<Longrightarrow> no_red_red (rbnode_mk_insert_result c t)"
  by (cases t) simp_all

lemma invh_mk_insert_result: "invh t \<Longrightarrow> invh (rbnode_mk_insert_result c t)"
  by (cases t) simp_all

lemma color_mk_insert_result: "rbnode_get_color (rbnode_mk_insert_result c t) = Black"
  by (cases t) simp_all

lemma rb_insert:
  "no_red_red t \<Longrightarrow> no_red_red (rbnode_insert lt t k v)"
  "invh t \<Longrightarrow> invh (rbnode_insert lt t k v)"
  "rbnode_get_color (rbnode_insert lt t k v) = Black"
  by (simp_all add: rbnode_insert_def invc_mk_insert_result invc_ins invh_mk_insert_result invh_ins
      color_mk_insert_result)

lemma rb_foldl_insert:
  "no_red_red t \<Longrightarrow> invh t \<Longrightarrow>
   no_red_red (list_foldl_insert lt t ks) \<and> invh (list_foldl_insert lt t ks)"
  by (induction ks arbitrary: t) (simp_all add: rb_insert)

lemma rb_from_list:
  "no_red_red (rbtree_from_list ks lt) \<and> uniform_black_height (rbtree_from_list ks lt)"
  using rb_foldl_insert [of Leaf lt ks] by (simp add: rbtree_from_list_def invh_uniform [symmetric])

lemma color_shape: "rbnode_get_color (shape t) = rbnode_get_color t"
  by (cases t) simp_all

lemma shape_balance1:
  "shape (rbnode_balance1 l ky vy r kv vv t) = rbnode_balance1 (shape l) () () (shape r) () () (shape t)"
  by (induction l ky vy r kv vv t rule: rbnode_balance1.induct) simp_all

lemma shape_balance2:
  "shape (rbnode_balance2 l ky vy r kv vv t) = rbnode_balance2 (shape l) () () (shape r) () () (shape t)"
  by (induction l ky vy r kv vv t rule: rbnode_balance2.induct) simp_all

lemma shape_balance1_node:
  "shape (rbnode_balance1_node n kv vv t) = rbnode_balance1_node (shape n) () () (shape t)"
  by (cases n) (simp_all add: shape_balance1)

lemma shape_balance2_node:
  "shape (rbnode_balance2_node n kv vv t) = rbnode_balance2_node (shape n) () () (shape t)"
  by (cases n) (simp_all add: shape_balance2)

lemma shape_ins_value: "shape (rbnode_ins lt t k v1) = shape (rbnode_ins lt t k v2)"
  by (induction t) (simp_all add: shape_balance1_node shape_balance2_node)

lemma shape_mk_insert_result:
  "shape (rbnode_mk_insert_result c t) = rbnode_mk_insert_result c (shape t)"
  by (cases t) simp_all

lemma shape_insert_value: "shape (rbnode_insert lt t k v1) = shape (rbnode_insert lt t k v2)"
  by (simp add: rbnode_insert_def shape_mk_insert_result shape_ins_value [of lt t k v1 v2])

lemma balance1_calm:
  "rbnode_get_color l = Black \<Longrightarrow> rbnode_get_color r = Black \<Longrightarrow>
   rbnode_balance1 l kx vx r kv vv t = BlackNode (RedNode l kx vx r) kv vv t"
  by (cases l; cases r) simp_all

lemma balance2_calm:
  "rbnode_get_color l = Black \<Longrightarrow> rbnode_get_color r = Black \<Longrightarrow>
   rbnode_balance2 l kx vx r kv vv t = BlackNode t kv vv (RedNode l kx vx r)"
  by (cases l; cases r) simp_all

lemma shape_red_calm:
  assumes "shape n = shape a" "rbnode_get_color a = Red" "no_red_red a"
  shows "rbnode_balance1_node n kv vv t = BlackNode n kv vv t"
    and "rbnode_balance2_node n kv vv t = BlackNode t kv vv n"
proof -
  obtain l kx vx r where a: "a = RedNode l kx vx r"
    using assms(2) by (cases a) simp_all
  then obtain l' kx' vx' r' where n: "n = RedNode l' kx' vx' r'"
    and "shape l' = shape l" "shape r' = shape r"
    using assms(1) by (cases n) simp_all
  then have "rbnode_get_color l' = Black" "rbnode_get_color r' = Black"
    using assms(3) a color_shape [of l'] color_shape [of r'] by (simp_all add: color_shape)
  then show "rbnode_balance1_node n kv vv t = BlackNode n kv vv t"
    and "rbnode_balance2_node n kv vv t = BlackNode t kv vv n"
    unfolding n by (simp_all add: balance1_calm balance2_calm)
qed

lemma shape_ins_present:
  "no_red_red t \<Longrightarrow> rbnode_find_core lt t k \<noteq> None \<Longrightarrow> shape (rbnode_ins lt t k v) = shape t"
proof (induction t)
  case Leaf
  then show ?case by simp
next
  case (RedNode a ky vy b)
  then show ?case by (simp split: if_splits)
next
  case (BlackNode a ky vy b)
  show ?case
  proof (cases "lt k ky")
    case True
    then have sh: "shape (rbnode_ins lt a k v) = shape a"
      using BlackNode by simp
    show ?thesis
    proof (cases "rbnode_get_color a = Red")
      case red: True
      have "rbnode_balance1_node (rbnode_ins lt a k v) ky vy b = BlackNode (rbnode_ins lt a k v) ky vy b"
        using shape_red_calm(1) [OF sh red] BlackNode.prems(1) by simp
      with True red sh show ?thesis by simp
    next
      case False
      with True sh show ?thesis by simp
    qed
  next
    case nlt: False
    show ?thesis
    proof (cases "lt ky k")
      case True
      then have sh: "shape (rbnode_ins lt b k v) = shape b"
        using BlackNode nlt by simp
      show ?thesis
      proof (cases "rbnode_get_color b = Red")
        case red: True
        have "rbnode_balance2_node (rbnode_ins lt b k v) ky vy a = BlackNode a ky vy (rbnode_ins lt b k v)"
          using shape_red_calm(2) [OF sh red] BlackNode.prems(1) by simp
        with True nlt red sh show ?thesis by simp
      next
        case False
        with True nlt sh show ?thesis by simp
      qed
    next
      case False
      with nlt show ?thesis by simp
    qed
  qed
qed

lemma length_entries_shape: "length (entries t) = length (entries (shape t))"
  by (induction t) simp_all

lemma shape_entries_eq: "shape s = shape t \<Longrightarrow> entries s = entries t \<Longrightarrow> s = t"
proof (induction s arbitrary: t)
  case Leaf
  then show ?case by (cases t) simp_all
next
  case (RedNode l k v r)
  then obtain l' k' v' r' where t: "t = RedNode l' k' v' r'" and sl: "shape l = shape l'"
      and sr: "shape r = shape r'"
    by (cases t) simp_all
  have "length (entries l) = length (entries l')"
    using sl length_entries_shape [of l] length_entries_shape [of l'] by simp
  with RedNode.prems(2) t have "entries l = entries l'" "k = k'" "v = v'" "entries r = entries r'"
    by simp_all
  with RedNode.IH sl sr t show ?case by simp
next
  case (BlackNode l k v r)
  then obtain l' k' v' r' where t: "t = BlackNode l' k' v' r'" and sl: "shape l = shape l'"
      and sr: "shape r = shape r'"
    by (cases t) simp_all
  have "length (entries l) = length (entries l')"
    using sl length_entries_shape [of l] length_entries_shape [of l'] by simp
  with BlackNode.prems(2) t have "entries l = entries l'" "k = k'" "v = v'" "entries r = entries r'"
    by simp_all
  with BlackNode.IH sl sr t show ?case by simp
qed

lemma upd_list_twice:
  "\<not> lt k k \<Longrightarrow> upd_list lt k v2 (upd_list lt k v1 es) = upd_list lt k v2 es"
  by (induction es) simp_all

lemma upd_list_present:
  assumes "strict_weak_order lt"
  shows "sorted_wrt lt (map fst es) \<Longrightarrow> find_list lt k es \<noteq> None \<Longrightarrow>
         upd_list lt k v es = map (\<lambda>e. if \<not> lt k (fst e) \<and> \<not> lt (fst e) k then (k, v) else e) es"
proof (induction es)
  case Nil
  then show ?case by simp
next
  case (Cons e es)
  show ?case
  proof (cases "lt (fst e) k")
    case True
    then have "\<not> lt k (fst e)" using swo_asym [OF assms] by blast
    with True Cons show ?thesis by simp
  next
    case False
    with Cons.prems(2) have nlt: "\<not> lt k (fst e)" by (simp split: if_splits)
    have "\<forall>x \<in> set es. lt k (fst x)"
      using Cons.prems(1) swo_equiv_lt [OF assms nlt False] by auto
    then have "map (\<lambda>e. if \<not> lt k (fst e) \<and> \<not> lt (fst e) k then (k, v) else e) es = es"
      by (simp add: map_idI)
    with False nlt show ?thesis by simp
  qed
qed

lemma wf_invariants:
  assumes "strict_weak_order lt"
  shows "well_formed lt t \<Longrightarrow> ordered lt t \<and> no_red_red t \<and> invh t \<and> rbnode_get_color t = Black"
  by (induction rule: well_formed.induct) (simp_all add: ordered_insert [OF assms] rb_insert)

lemma insert_present:
  assumes "strict_weak_order lt" "ordered lt t" "no_red_red t" "rbnode_get_color t = Black"
    and "rbnode_find_core lt t k \<noteq> None"
  shows "shape (rbnode_insert lt t k v) = shape t"
    and "entries (rbnode_insert lt t k v) =
         map (\<lambda>e. if \<not> lt k (fst e) \<and> \<not> lt (fst e) k then (k, v) else e) (entries t)"
proof -
  have "shape (rbnode_ins lt t k v) = shape t"
    using shape_ins_present [OF assms(3,5)] .
  moreover have "rbnode_mk_insert_result c (shape t) = shape t" for c
    using assms(4) by (cases t) simp_all
  ultimately show "shape (rbnode_insert lt t k v) = shape t"
    by (simp add: rbnode_insert_def shape_mk_insert_result)
  have "sorted_wrt lt (map fst (entries t))" "find_list lt k (entries t) \<noteq> None"
    using assms by (simp_all add: sorted_ordered [symmetric] find_core_entries [symmetric])
  then show "entries (rbnode_insert lt t k v) =
         map (\<lambda>e. if \<not> lt k (fst e) \<and> \<not> lt (fst e) k then (k, v) else e) (entries t)"
    by (simp add: entries_insert [OF assms(1,2)] upd_list_present [OF assms(1)])
qed

lemma insert_present_any_root:
  assumes "strict_weak_order lt" "ordered lt t" "no_red_red t"
    and "rbnode_find_core lt t k \<noteq> None"
  shows "shape (rbnode_ins lt t k v) = shape t"
    and "shape (rbnode_insert lt t k v) = rbnode_mk_insert_result (rbnode_get_color t) (shape t)"
    and "entries (rbnode_insert lt t k v) =
         map (\<lambda>e. if \<not> lt k (fst e) \<and> \<not> lt (fst e) k then (k, v) else e) (entries t)"
proof -
  show sh: "shape (rbnode_ins lt t k v) = shape t"
    using shape_ins_present [OF assms(3,4)] .
  then show "shape (rbnode_insert lt t k v) = rbnode_mk_insert_result (rbnode_get_color t) (shape t)"
    by (simp add: rbnode_insert_def shape_mk_insert_result)
  have "sorted_wrt lt (map fst (entries t))" "find_list lt k (entries t) \<noteq> None"
    using assms by (simp_all add: sorted_ordered [symmetric] find_core_entries [symmetric])
  then show "entries (rbnode_insert lt t k v) =
         map (\<lambda>e. if \<not> lt k (fst e) \<and> \<not> lt (fst e) k then (k, v) else e) (entries t)"
    by (simp add: entries_insert [OF assms(1,2)] upd_list_present [OF assms(1)])
qed

lemma insert_insert_valid:
  assumes "strict_weak_order lt" "ordered lt t" "no_red_red t"
  shows "rbnode_insert lt (rbnode_insert lt t k v1) k v2 = rbnode_insert lt t k v2"
proof -
  let ?T = "rbnode_insert lt t k v1"
  have invT: "ordered lt ?T" "no_red_red ?T" "rbnode_get_color ?T = Black"
    using assms by (simp_all add: ordered_insert rb_insert)
  have "rbnode_find_core lt ?T k \<noteq> None"
    by (simp add: find_core_insert [OF assms(1,2)])
  then have "shape (rbnode_insert lt ?T k v2) = shape ?T"
    using insert_present(1) [OF assms(1) invT] by simp
  then have sh: "shape (rbnode_insert lt ?T k v2) = shape (rbnode_insert lt t k v2)"
    using shape_insert_value [of lt t k v1 v2] by simp
  have "entries (rbnode_insert lt ?T k v2) = upd_list lt k v2 (upd_list lt k v1 (entries t))"
    by (simp add: entries_insert [OF assms(1)] invT assms(2))
  then have "entries (rbnode_insert lt ?T k v2) = entries (rbnode_insert lt t k v2)"
    by (simp add: upd_list_twice swo_irrefl [OF assms(1)] entries_insert [OF assms(1,2)])
  with sh show ?thesis by (rule shape_entries_eq)
qed

lemma checked_all_append:
  "checked_all p (xs @ ys) =
     (if list_all p xs then xs @ checked_all p ys else checked_all p xs)"
  by (induction xs) simp_all

lemma checked_any_append:
  "checked_any p (xs @ ys) =
     (if list_ex p xs then checked_any p xs else xs @ checked_any p ys)"
  by (induction xs) simp_all

lemma checked_all_pass: "list_all p xs \<Longrightarrow> checked_all p xs = xs"
  by (induction xs) simp_all

lemma checked_any_pass: "\<not> list_ex p xs \<Longrightarrow> checked_any p xs = xs"
  by (induction xs) simp_all

lemma set_preorder: "set (preorder t) = set (rbtree_to_list t)"
  by (induction t) (auto simp: to_list_entries)

lemma all_run: "rbnode_all p t = (list_all p (preorder t), checked_all p (preorder t))"
  by (induction t) (simp_all add: checked_all_append checked_all_pass)

lemma any_run: "rbnode_any p t = (list_ex p (preorder t), checked_any p (preorder t))"
  by (induction t) (simp_all add: checked_any_append checked_any_pass)

lemma option_to_bool_iff: "option_to_bool x \<longleftrightarrow> x \<noteq> None"
  by (cases x) simp_all

lemma all_subset_iff:
  "rbnode_all_subset lt t2 t \<longleftrightarrow> (\<forall>e \<in> set (entries t). rbtree_find lt t2 (fst e) \<noteq> None)"
  by (induction t) (auto simp: option_to_bool_iff)


lemma find_list_present:
  assumes "strict_weak_order lt"
  shows "sorted_wrt lt (map fst es) \<Longrightarrow>
         find_list lt k es \<noteq> None \<longleftrightarrow> (\<exists>e \<in> set es. \<not> lt k (fst e) \<and> \<not> lt (fst e) k)"
proof (induction es)
  case Nil
  then show ?case by simp
next
  case (Cons e es)
  show ?case
  proof (cases "lt k (fst e)")
    case True
    then have "\<forall>x \<in> set es. lt k (fst x)"
      using Cons.prems swo_trans [OF assms] by auto
    with True show ?thesis by auto
  next
    case False
    with Cons show ?thesis by auto
  qed
qed

lemma present_iff:
  assumes "strict_weak_order lt" "ordered lt t"
  shows "rbnode_find_core lt t k \<noteq> None \<longleftrightarrow>
         (\<exists>e \<in> set (entries t). \<not> lt k (fst e) \<and> \<not> lt (fst e) k)"
  using assms find_list_present [OF assms(1), of "entries t" k]
  by (simp add: find_core_entries sorted_ordered)

text \<open>
  C1 (as the code has it): for a strict weak ordering and a tree that satisfies the order
  invariant, looking up \<open>k\<close> right after inserting \<open>k\<close> with the value \<open>v\<close> succeeds;
  \<open>find\<close> returns the stored key \<open>k\<close>, and the entry that the underlying search finds is
  \<open>(k, v)\<close>.  The insertion of the tree proper, \<open>rbtree_insert\<close>, takes no value and
  stores the unit value; after it, \<open>find\<close> returns the key as well.  The value itself is
  not what \<open>find\<close> returns, as the example after the witness shows.
\<close>

theorem find_insert:
  assumes "strict_weak_order lt" and "ordered lt t"
  shows "rbtree_find lt (rbnode_insert lt t k v) k = Some k
         \<and> rbnode_find_core lt (rbnode_insert lt t k v) k = Some (k, v)
         \<and> (ordered lt s \<longrightarrow> rbtree_find lt (rbtree_insert lt s k) k = Some k)"
  using find_core_insert [OF assms, of k v] find_core_insert [OF assms(1), of s k "()"]
  by (simp add: rbtree_find_def rbtree_insert_def)

theorem find_insert_witness:
  "strict_weak_order ((<) :: nat \<Rightarrow> nat \<Rightarrow> bool)
   \<and> ordered (<) (BlackNode (RedNode Leaf (1::nat) ''a'' Leaf) 2 ''b'' Leaf)
   \<and> rbtree_find (<) (rbnode_insert (<) (BlackNode (RedNode Leaf (1::nat) ''a'' Leaf) 2 ''b'' Leaf) 0 ''c'') 0 = Some 0
   \<and> rbnode_find_core (<) (rbnode_insert (<) (BlackNode (RedNode Leaf (1::nat) ''a'' Leaf) 2 ''b'' Leaf) 0 ''c'') 0 = Some (0, ''c'')
   \<and> ordered (<) (BlackNode (RedNode Leaf (1::nat) () Leaf) 2 () Leaf)
   \<and> rbtree_find (<) (rbtree_insert (<) (BlackNode (RedNode Leaf (1::nat) () Leaf) 2 () Leaf) 0) 0 = Some 0"
proof -
  have o: "ordered (<) (BlackNode (RedNode Leaf (1::nat) ''a'' Leaf) 2 ''b'' Leaf)"
    and o': "ordered (<) (BlackNode (RedNode Leaf (1::nat) () Leaf) 2 () Leaf)"
    by simp_all
  show ?thesis
    using find_insert [OF swo_less_nat o, of 0 "''c''" "BlackNode (RedNode Leaf (1::nat) () Leaf) 2 () Leaf"]
      swo_less_nat o o'
    by simp
qed

theorem find_insert_value_counterexample:
  "rbtree_find (<) (rbnode_insert (<) Leaf (1::nat) (2::nat)) 1 \<noteq> Some 2"
  by (simp add: rbtree_find_def rbnode_insert_def)

text \<open>
  C2: every tree built from the empty tree by a sequence of insertions has no red node
  with a red child, and all its paths from the root to a leaf hold the same number of
  black nodes; one insertion preserves the two invariants.  This holds for every
  comparator, in particular for every strict weak ordering.
\<close>

theorem insert_keeps_red_black:
  "no_red_red (rbtree_from_list ks lt) \<and> uniform_black_height (rbtree_from_list ks lt)
   \<and> (no_red_red t \<and> uniform_black_height t \<longrightarrow>
        no_red_red (rbtree_insert lt t k) \<and> uniform_black_height (rbtree_insert lt t k))"
  using rb_from_list [of ks lt] rb_insert(1,2) [of t lt k "()"]
  by (simp add: rbtree_insert_def invh_uniform)

theorem insert_keeps_red_black_witness:
  "no_red_red (rbtree_from_list [5, 3, 8, 1, 4, 7, 9 :: nat] (<))
   \<and> uniform_black_height (rbtree_from_list [5, 3, 8, 1, 4, 7, 9 :: nat] (<))
   \<and> black_counts (rbtree_from_list [5, 3, 8, 1, 4, 7, 9 :: nat] (<)) = [2, 2, 2, 2, 2, 2, 2, 2]
   \<and> no_red_red (BlackNode (RedNode Leaf (3::nat) () Leaf) 5 () (RedNode Leaf 8 () Leaf))
   \<and> uniform_black_height (BlackNode (RedNode Leaf (3::nat) () Leaf) 5 () (RedNode Leaf 8 () Leaf))
   \<and> rbtree_insert (<) (BlackNode (RedNode Leaf (3::nat) () Leaf) 5 () (RedNode Leaf 8 () Leaf)) 1
       = BlackNode (BlackNode Leaf 1 () Leaf) 3 () (BlackNode Leaf 5 () (RedNode Leaf 8 () Leaf))
   \<and> no_red_red (rbtree_insert (<) (BlackNode (RedNode Leaf (3::nat) () Leaf) 5 () (RedNode Leaf 8 () Leaf)) 1)
   \<and> uniform_black_height (rbtree_insert (<) (BlackNode (RedNode Leaf (3::nat) () Leaf) 5 () (RedNode Leaf 8 () Leaf)) 1)"
  using insert_keeps_red_black [of "[5, 3, 8, 1, 4, 7, 9 :: nat]" "(<)"
      "BlackNode (RedNode Leaf (3::nat) () Leaf) 5 () (RedNode Leaf 8 () Leaf)" 1]
  by (simp add: rbtree_from_list_def rbnode_insert_def rbtree_insert_def uniform_black_height_def)

text \<open>
  C3 (as the code has it): for a strict weak ordering and a tree built from the empty
  tree by a sequence of insertions, \<open>to_list\<close> is strictly ascending under the comparator;
  it is the list of the keys of the entries from left to right.  The list holds the keys
  only, not pairs of key and value: as the example after the witness shows, two trees
  that differ in their values have the same list.
\<close>

theorem to_list_ascending:
  assumes "strict_weak_order lt"
  shows "sorted_wrt lt (rbtree_to_list (rbtree_from_list ks lt))
         \<and> rbtree_to_list (rbtree_from_list ks lt) = map fst (entries (rbtree_from_list ks lt))"
  using ordered_from_list [OF assms, of ks]
  by (simp add: to_list_entries sorted_ordered [OF assms])

theorem to_list_ascending_witness:
  "strict_weak_order ((<) :: nat \<Rightarrow> nat \<Rightarrow> bool)
   \<and> rbtree_to_list (rbtree_from_list [5, 3, 8, 1, 4, 7, 9 :: nat] (<)) = [1, 3, 4, 5, 7, 8, 9]
   \<and> sorted_wrt (<) (rbtree_to_list (rbtree_from_list [5, 3, 8, 1, 4, 7, 9 :: nat] (<)))"
  using to_list_ascending [OF swo_less_nat, of "[5, 3, 8, 1, 4, 7, 9]"] swo_less_nat
  by (simp add: rbtree_from_list_def rbnode_insert_def rbtree_to_list_def)

theorem to_list_pairs_counterexample:
  "rbtree_to_list (BlackNode (RedNode Leaf (1::nat) True Leaf) 2 False Leaf) = [1, 2]
   \<and> entries (BlackNode (RedNode Leaf (1::nat) True Leaf) 2 False Leaf) = [(1, True), (2, False)]
   \<and> rbtree_to_list (BlackNode (RedNode Leaf (1::nat) False Leaf) 2 True Leaf) = [1, 2]
   \<and> rbtree_to_list (rbtree_from_list [2, 1 :: nat] (<)) = [1, 2]
   \<and> entries (rbtree_from_list [2, 1 :: nat] (<)) = [(1, ()), (2, ())]"
  by (simp add: rbtree_from_list_def rbnode_insert_def rbtree_to_list_def)

text \<open>
  C4 (as the code has it): for a strict weak ordering and a tree that satisfies the order
  invariant and has no red node with a red child, inserting a key for which the tree
  stores an equivalent key (neither is less than the other) replaces key and value at
  that node and changes no other entry; the recursive insertion keeps the structure and
  every color, and the insertion as a whole changes at most the color of the root, which
  it makes black.  So the shape is kept whenever the root is black, as it is in every
  tree built from the empty tree by insertions; and inserting \<open>k\<close> with \<open>v1\<close> and then
  with \<open>v2\<close> gives the same tree as inserting \<open>k\<close> with \<open>v2\<close> at once.  On a tree with
  a red root the color of the root does change, as the example after the witness shows.
\<close>

theorem replace_in_place:
  assumes "strict_weak_order lt" and "ordered lt t" and "no_red_red t"
  shows "((\<exists>e \<in> set (entries t). \<not> lt k (fst e) \<and> \<not> lt (fst e) k) \<longrightarrow>
            shape (rbnode_ins lt t k v) = shape t
            \<and> shape (rbnode_insert lt t k v) = rbnode_mk_insert_result (rbnode_get_color t) (shape t)
            \<and> (rbnode_get_color t = Black \<longrightarrow> shape (rbnode_insert lt t k v) = shape t)
            \<and> entries (rbnode_insert lt t k v) =
                map (\<lambda>e. if \<not> lt k (fst e) \<and> \<not> lt (fst e) k then (k, v) else e) (entries t))
         \<and> rbnode_insert lt (rbnode_insert lt t k v1) k v2 = rbnode_insert lt t k v2
         \<and> (well_formed lt s \<longrightarrow> ordered lt s \<and> no_red_red s \<and> rbnode_get_color s = Black)"
proof -
  have blk: "rbnode_get_color t = Black \<Longrightarrow> rbnode_mk_insert_result c (shape t) = shape t" for c
    by (cases t) simp_all
  show ?thesis
    using insert_present_any_root [OF assms, of k v] present_iff [OF assms(1,2), of k]
      insert_insert_valid [OF assms, of k v1 v2] wf_invariants [OF assms(1), of s] blk
    by auto
qed

theorem replace_in_place_witness:
  "strict_weak_order ((<) :: nat \<Rightarrow> nat \<Rightarrow> bool)
   \<and> ordered (<) (BlackNode (RedNode Leaf (1::nat) ''a'' Leaf) 2 ''b'' Leaf)
   \<and> no_red_red (BlackNode (RedNode Leaf (1::nat) ''a'' Leaf) 2 ''b'' Leaf)
   \<and> entries (BlackNode (RedNode Leaf (1::nat) ''a'' Leaf) 2 ''b'' Leaf) = [(1, ''a''), (2, ''b'')]
   \<and> rbnode_insert (<) (BlackNode (RedNode Leaf (1::nat) ''a'' Leaf) 2 ''b'' Leaf) 1 ''z''
       = BlackNode (RedNode Leaf 1 ''z'' Leaf) 2 ''b'' Leaf
   \<and> shape (rbnode_insert (<) (BlackNode (RedNode Leaf (1::nat) ''a'' Leaf) 2 ''b'' Leaf) 1 ''z'')
       = shape (BlackNode (RedNode Leaf (1::nat) ''a'' Leaf) 2 ''b'' Leaf)
   \<and> rbnode_insert (<) (rbnode_insert (<) (BlackNode (RedNode Leaf (1::nat) ''a'' Leaf) 2 ''b'' Leaf) 3 ''x'') 3 ''y''
       = rbnode_insert (<) (BlackNode (RedNode Leaf (1::nat) ''a'' Leaf) 2 ''b'' Leaf) 3 ''y''
   \<and> well_formed (<) (rbnode_insert (<) (rbnode_insert (<) Leaf (2::nat) ''b'') 1 ''a'')
   \<and> rbnode_insert (<) (rbnode_insert (<) Leaf (2::nat) ''b'') 1 ''a''
       = BlackNode (RedNode Leaf 1 ''a'' Leaf) 2 ''b'' Leaf"
proof -
  have o: "ordered (<) (BlackNode (RedNode Leaf (1::nat) ''a'' Leaf) 2 ''b'' Leaf)"
    and c: "no_red_red (BlackNode (RedNode Leaf (1::nat) ''a'' Leaf) 2 ''b'' Leaf)"
    by simp_all
  have wf: "well_formed (<) (rbnode_insert (<) (rbnode_insert (<) Leaf (2::nat) ''b'') 1 ''a'')"
    by (intro well_formed.intros)
  show ?thesis
    using replace_in_place [OF swo_less_nat o c, of 1 "''z''" "''x''" "''y''"
        "rbnode_insert (<) (rbnode_insert (<) Leaf (2::nat) ''b'') 1 ''a''"]
      replace_in_place [OF swo_less_nat o c, of 3 "''z''" "''x''" "''y''"
        "rbnode_insert (<) (rbnode_insert (<) Leaf (2::nat) ''b'') 1 ''a''"] swo_less_nat wf
    by (simp add: rbnode_insert_def)
qed

theorem replace_root_color_counterexample:
  "ordered (<) (RedNode Leaf (1::nat) ''a'' Leaf)
   \<and> no_red_red (RedNode Leaf (1::nat) ''a'' Leaf)
   \<and> uniform_black_height (RedNode Leaf (1::nat) ''a'' Leaf)
   \<and> rbnode_find_core (<) (RedNode Leaf (1::nat) ''a'' Leaf) 1 = Some (1, ''a'')
   \<and> rbnode_insert (<) (RedNode Leaf (1::nat) ''a'' Leaf) 1 ''z'' = BlackNode Leaf 1 ''z'' Leaf
   \<and> shape (rbnode_insert (<) (RedNode Leaf (1::nat) ''a'' Leaf) 1 ''z'')
       \<noteq> shape (RedNode Leaf (1::nat) ''a'' Leaf)"
  by (simp add: rbnode_insert_def uniform_black_height_def)

text \<open>
  C7: \<open>subset\<close> of \<open>t1\<close> and \<open>t2\<close> is true exactly when every key of \<open>t1\<close> is found in
  \<open>t2\<close>, for all trees and every comparator.
\<close>

theorem rbtree_subset_iff:
  "rbtree_subset lt t1 t2 \<longleftrightarrow> (\<forall>k \<in> set (rbtree_to_list t1). rbtree_find lt t2 k \<noteq> None)"
  by (simp add: rbtree_subset_def to_list_entries all_subset_iff)

theorem rbtree_subset_iff_witness:
  "rbtree_subset (<) (BlackNode Leaf (1::nat) () (RedNode Leaf 2 () Leaf))
     (BlackNode (RedNode Leaf 1 () Leaf) 2 () (RedNode Leaf 3 () Leaf))
   \<and> rbtree_to_list (BlackNode Leaf (1::nat) () (RedNode Leaf 2 () Leaf)) = [1, 2]
   \<and> rbtree_find (<) (BlackNode (RedNode Leaf 1 () Leaf) 2 () (RedNode Leaf 3 () Leaf)) (1::nat) = Some 1
   \<and> rbtree_find (<) (BlackNode (RedNode Leaf 1 () Leaf) 2 () (RedNode Leaf 3 () Leaf)) (2::nat) = Some 2
   \<and> \<not> rbtree_subset (<) (BlackNode (RedNode Leaf 1 () Leaf) 2 () (RedNode Leaf 3 () Leaf))
         (BlackNode Leaf (1::nat) () (RedNode Leaf 2 () Leaf))
   \<and> rbtree_find (<) (BlackNode Leaf (1::nat) () (RedNode Leaf 2 () Leaf)) 3 = None"
  using rbtree_subset_iff [of "(<)" "BlackNode Leaf (1::nat) () (RedNode Leaf 2 () Leaf)"
      "BlackNode (RedNode Leaf 1 () Leaf) 2 () (RedNode Leaf 3 () Leaf)"]
    rbtree_subset_iff [of "(<)" "BlackNode (RedNode Leaf 1 () Leaf) 2 () (RedNode Leaf 3 () Leaf)"
      "BlackNode Leaf (1::nat) () (RedNode Leaf 2 () Leaf)"]
  by (simp add: rbtree_to_list_def rbtree_find_def)

text \<open>
  C8 (as the code has it): \<open>all\<close> is true exactly when the predicate holds of every key
  and \<open>any\<close> exactly when it holds of some key; the predicate is applied to the keys in
  the order node, left subtree, right subtree, and no further than the first key that
  fails (for \<open>all\<close>) or succeeds (for \<open>any\<close>).  This order is not the in-order
  sequence, as the example after the witness shows.
\<close>

theorem all_any_preorder:
  "fst (rbtree_all t p) = (\<forall>k \<in> set (rbtree_to_list t). p k)
   \<and> snd (rbtree_all t p) = checked_all p (preorder t)
   \<and> fst (rbtree_any t p) = (\<exists>k \<in> set (rbtree_to_list t). p k)
   \<and> snd (rbtree_any t p) = checked_any p (preorder t)"
  by (simp add: rbtree_all_def rbtree_any_def all_run any_run list_all_iff list_ex_iff set_preorder)

theorem all_any_preorder_witness:
  "rbtree_to_list (BlackNode (RedNode Leaf (1::nat) () Leaf) 2 () (RedNode Leaf 3 () Leaf)) = [1, 2, 3]
   \<and> preorder (BlackNode (RedNode Leaf (1::nat) () Leaf) 2 () (RedNode Leaf 3 () Leaf)) = [2, 1, 3]
   \<and> rbtree_all (BlackNode (RedNode Leaf (1::nat) () Leaf) 2 () (RedNode Leaf 3 () Leaf)) even
       = (False, [2, 1])
   \<and> rbtree_any (BlackNode (RedNode Leaf (1::nat) () Leaf) 2 () (RedNode Leaf 3 () Leaf)) ((=) 1)
       = (True, [2, 1])
   \<and> rbtree_all (BlackNode (RedNode Leaf (1::nat) () Leaf) 2 () (RedNode Leaf 3 () Leaf)) ((<) 0)
       = (True, [2, 1, 3])
   \<and> rbtree_any (BlackNode (RedNode Leaf (1::nat) () Leaf) 2 () (RedNode Leaf 3 () Leaf)) ((=) 0)
       = (False, [2, 1, 3])"
  using all_any_preorder [of "BlackNode (RedNode Leaf (1::nat) () Leaf) 2 () (RedNode Leaf 3 () Leaf)" even]
    all_any_preorder [of "BlackNode (RedNode Leaf (1::nat) () Leaf) 2 () (RedNode Leaf 3 () Leaf)" "(=) 1"]
  by (simp add: rbtree_to_list_def rbtree_all_def rbtree_any_def)

theorem all_any_inorder_counterexample:
  "snd (rbtree_all (BlackNode (RedNode Leaf (1::nat) () Leaf) 2 () (RedNode Leaf 3 () Leaf)) even)
     \<noteq> checked_all even
         (rbtree_to_list (BlackNode (RedNode Leaf (1::nat) () Leaf) 2 () (RedNode Leaf 3 () Leaf)))
   \<and> snd (rbtree_any (BlackNode (RedNode Leaf (1::nat) () Leaf) 2 () (RedNode Leaf 3 () Leaf)) ((=) 1))
     \<noteq> checked_any ((=) 1)
         (rbtree_to_list (BlackNode (RedNode Leaf (1::nat) () Leaf) 2 () (RedNode Leaf 3 () Leaf)))"
  by (simp add: rbtree_to_list_def rbtree_all_def rbtree_any_def)

section \<open>Properties of the backward lemma index\<close>

lemma strip_binders_not_pi: "\<not> is_pi type \<Longrightarrow> strip_binders ctx n type = Some type"
  by (subst strip_binders.simps) simp

lemma strip_binders_pi:
  "is_pi type \<Longrightarrow> strip_binders ctx n type =
     strip_binders ctx (Suc n)
       (try_to_pi ctx (instantiate (binding_body type) (push_local_from_binding ctx n type)))"
  by (subst strip_binders.simps) simp

lemma set_insert_prio: "set (insert_prio f v xs) = insert v (set xs)"
  by (induction xs) auto

lemma sorted_insert_prio:
  "sorted_wrt (by_priority f) xs \<Longrightarrow> sorted_wrt (by_priority f) (insert_prio f v xs)"
proof (induction xs)
  case Nil
  then show ?case by simp
next
  case (Cons x xs)
  show ?case
  proof (cases "prio_fn_apply f x \<le> prio_fn_apply f v")
    case True
    with Cons.prems show ?thesis
      by (auto simp: by_priority_def intro: order_trans)
  next
    case False
    with Cons show ?thesis
      by (auto simp: by_priority_def set_insert_prio)
  qed
qed

lemma sorted_head_map_insert: "lists_sorted m \<Longrightarrow> lists_sorted (head_map_insert h v m)"
  by (auto simp: lists_sorted_def head_map_insert_def sorted_insert_prio sorted_wrt_filter
      split: option.splits if_splits)

lemma sorted_head_map_erase: "lists_sorted m \<Longrightarrow> lists_sorted (head_map_erase h v m)"
  by (auto simp: lists_sorted_def head_map_erase_def Let_def sorted_wrt_filter
      split: option.splits if_splits)

lemma sorted_index_lemmas:
  "lists_sorted (m_index st) \<Longrightarrow> index_lemmas ctx lemmas i st = Some st' \<Longrightarrow>
   lists_sorted (m_index st')"
proof (induction i arbitrary: st)
  case 0
  then show ?case by simp
next
  case (Suc i)
  from Suc.prems(2) obtain target where
    tgt: "get_backward_target_decl ctx (lemmas ! i) = Some target"
    by (auto split: option.splits)
  have keep: "lists_sorted (m_index (trace_discard (lemmas ! i) st))"
    using Suc.prems(1) by (simp add: trace_discard_def)
  show ?case
  proof (cases target)
    case None
    with Suc.prems(2) tgt Suc.IH [OF keep] show ?thesis by simp
  next
    case (Some h)
    have add: "lists_sorted (m_index (index_add h (lemma_of_name (lemmas ! i)) st))"
      using Suc.prems(1) by (simp add: index_add_def sorted_head_map_insert)
    from Suc.prems(2) tgt Some Suc.IH [OF keep] Suc.IH [OF add] show ?thesis
      by (simp split: if_splits)
  qed
qed

lemma reachable_sorted: "index_reachable st \<Longrightarrow> lists_sorted (m_index st)"
proof (induction rule: index_reachable.induct)
  case (built dflt ctx out st)
  let ?init = "\<lparr>m_index = \<lparr>get_prio = \<lparr>m_prios = intro_prios ctx, default_priority = dflt\<rparr>,
                 m_map = Map.empty\<rparr>, tout = out\<rparr>"
  have "lists_sorted (m_index ?init)"
    by (simp add: lists_sorted_def)
  moreover have "index_lemmas ctx (intro_instances ctx) (length (intro_instances ctx)) ?init = Some st"
    using built by (simp add: mk_backward_lemma_index_def)
  ultimately show ?case by (rule sorted_index_lemmas)
next
  case (inserted st ctx href st')
  then show ?case
    by (auto simp: index_insert_def index_add_def sorted_head_map_insert split: option.splits)
next
  case (erased st ctx href st')
  then show ?case
    by (auto simp: index_erase_def index_remove_def sorted_head_map_erase split: option.splits)
qed

lemma find_by_priority:
  assumes "index_reachable st"
  shows "sorted_wrt (by_priority (get_prio (m_index st))) (index_find st h)"
  using reachable_sorted [OF assms]
  by (auto simp: index_find_def head_map_find_def lists_sorted_def split: option.splits)

lemma find_index_add:
  "set (index_find (index_add h v st) h') =
     (if h' = h then insert v (set (index_find st h)) else set (index_find st h'))"
  by (auto simp: index_find_def index_add_def head_map_find_def head_map_insert_def set_insert_prio
      split: option.splits)

lemma find_trace_discard: "index_find (trace_discard c st) h = index_find st h"
  by (simp add: index_find_def trace_discard_def head_map_find_def)

lemma index_lemmas_result:
  assumes "i \<le> length lemmas"
    and "\<forall>c \<in> set (take i lemmas). get_backward_target_decl ctx c \<noteq> None"
  shows "\<exists>st'. index_lemmas ctx lemmas i st = Some st'
           \<and> tout st' = tout st @ map discard_message (filter (discarded ctx) (rev (take i lemmas)))
           \<and> (\<forall>h v. v \<in> set (index_find st' h) \<longleftrightarrow>
                 v \<in> set (index_find st h)
                 \<or> (\<exists>c \<in> set (take i lemmas). v = lemma_of_name c
                       \<and> get_backward_target_decl ctx c = Some (Some h) \<and> m_kind h = kConstant))"
  using assms
proof (induction i arbitrary: st)
  case 0
  then show ?case by simp
next
  case (Suc i)
  let ?c = "lemmas ! i"
  have tk: "take (Suc i) lemmas = take i lemmas @ [?c]"
    using Suc.prems(1) by (simp add: take_Suc_conv_app_nth)
  have le: "i \<le> length lemmas" using Suc.prems(1) by simp
  have rest: "\<forall>c \<in> set (take i lemmas). get_backward_target_decl ctx c \<noteq> None"
    using Suc.prems(2) tk by simp
  obtain target where tgt: "get_backward_target_decl ctx ?c = Some target"
    using Suc.prems(2) tk by auto
  show ?case
  proof (cases "no_constant_target target")
    case True
    then have step: "index_lemmas ctx lemmas (Suc i) st = index_lemmas ctx lemmas i (trace_discard ?c st)"
      using tgt by (cases target) simp_all
    have disc: "discarded ctx ?c" using tgt True by (simp add: discarded_def)
    have nogood: "\<not> (get_backward_target_decl ctx ?c = Some (Some h) \<and> m_kind h = kConstant)" for h
      using tgt True by auto
    obtain st' where r: "index_lemmas ctx lemmas i (trace_discard ?c st) = Some st'"
      and t: "tout st' = tout (trace_discard ?c st)
                @ map discard_message (filter (discarded ctx) (rev (take i lemmas)))"
      and m: "\<forall>h v. v \<in> set (index_find st' h) \<longleftrightarrow>
                 v \<in> set (index_find (trace_discard ?c st) h)
                 \<or> (\<exists>c \<in> set (take i lemmas). v = lemma_of_name c
                       \<and> get_backward_target_decl ctx c = Some (Some h) \<and> m_kind h = kConstant)"
      using Suc.IH [OF le rest, of "trace_discard ?c st"] by blast
    have "tout st' = tout st @ map discard_message (filter (discarded ctx) (rev (take (Suc i) lemmas)))"
      using t disc tk by (simp add: trace_discard_def)
    moreover have "\<forall>h v. v \<in> set (index_find st' h) \<longleftrightarrow>
                 v \<in> set (index_find st h)
                 \<or> (\<exists>c \<in> set (take (Suc i) lemmas). v = lemma_of_name c
                       \<and> get_backward_target_decl ctx c = Some (Some h) \<and> m_kind h = kConstant)"
      using m nogood tk by (auto simp: find_trace_discard)
    ultimately show ?thesis using step r by simp
  next
    case False
    then obtain h0 where h0: "target = Some h0" "m_kind h0 = kConstant"
      by (cases target) simp_all
    let ?st1 = "index_add h0 (lemma_of_name ?c) st"
    have step: "index_lemmas ctx lemmas (Suc i) st = index_lemmas ctx lemmas i ?st1"
      using tgt h0 by simp
    have disc: "\<not> discarded ctx ?c" using tgt False by (simp add: discarded_def)
    obtain st' where r: "index_lemmas ctx lemmas i ?st1 = Some st'"
      and t: "tout st' = tout ?st1 @ map discard_message (filter (discarded ctx) (rev (take i lemmas)))"
      and m: "\<forall>h v. v \<in> set (index_find st' h) \<longleftrightarrow>
                 v \<in> set (index_find ?st1 h)
                 \<or> (\<exists>c \<in> set (take i lemmas). v = lemma_of_name c
                       \<and> get_backward_target_decl ctx c = Some (Some h) \<and> m_kind h = kConstant)"
      using Suc.IH [OF le rest, of ?st1] by blast
    have "tout st' = tout st @ map discard_message (filter (discarded ctx) (rev (take (Suc i) lemmas)))"
      using t disc tk by (simp add: index_add_def)
    moreover have "\<forall>h v. v \<in> set (index_find st' h) \<longleftrightarrow>
                 v \<in> set (index_find st h)
                 \<or> (\<exists>c \<in> set (take (Suc i) lemmas). v = lemma_of_name c
                       \<and> get_backward_target_decl ctx c = Some (Some h) \<and> m_kind h = kConstant)"
      using m tgt h0 tk by (auto simp: find_index_add)
    ultimately show ?thesis using step r by simp
  qed
qed

lemma build_result:
  assumes "\<forall>c \<in> set (intro_instances ctx). get_backward_target_decl ctx c \<noteq> None"
  shows "\<exists>st. mk_backward_lemma_index dflt ctx out = Some st
           \<and> tout st = out @ map discard_message (filter (discarded ctx) (rev (intro_instances ctx)))
           \<and> (\<forall>h c. lemma_of_name c \<in> set (index_find st h) \<longleftrightarrow>
                 c \<in> set (intro_instances ctx)
                 \<and> get_backward_target_decl ctx c = Some (Some h) \<and> m_kind h = kConstant)"
proof -
  let ?init = "\<lparr>m_index = \<lparr>get_prio = \<lparr>m_prios = intro_prios ctx, default_priority = dflt\<rparr>,
                 m_map = Map.empty\<rparr>, tout = out\<rparr>"
  have e: "index_find ?init h = []" for h
    by (simp add: index_find_def head_map_find_def)
  show ?thesis
    using index_lemmas_result [of "length (intro_instances ctx)" "intro_instances ctx" ctx ?init] assms
    unfolding mk_backward_lemma_index_def by (auto simp: e)
qed

lemma handler_result:
  "get_backward_target_decl ctx c = Some target \<Longrightarrow>
   intro_attribute_handler ctx env c =
     (if no_constant_target target then Some (Inl (Exception (invalid_intro_message c)))
      else Some (Inr env))"
  by (simp add: intro_attribute_handler_def)

lemma target_undetermined:
  "strip_binders ctx 0 type = Some concl \<Longrightarrow>
   get_backward_target ctx type = Some None \<longleftrightarrow>
     \<not> is_constant (get_app_fn concl) \<and> \<not> is_local (get_app_fn concl)"
  by (simp add: get_backward_target_def Let_def)

lemma insert_erase_undetermined:
  assumes "strip_binders ctx 0 (infer ctx href) = Some concl"
    and "\<not> is_constant (get_app_fn concl)" and "\<not> is_local (get_app_fn concl)"
  shows "index_insert ctx href st = Some st" and "index_erase ctx href st = Some st"
  using target_undetermined [OF assms(1)] assms(2,3)
  by (simp_all add: index_insert_def index_erase_def)

text \<open>
  C5: in every state of the index (built by the constructor, then changed by insertions
  and removals of local hypotheses) and for every head, \<open>find\<close> returns the lemmas of the
  head by descending priority: no lemma of the list has a lower priority than a lemma
  after it.  The priority of a lemma made from a declaration is the priority that the
  attribute gives the declaration, and the default priority when it gives none; the
  priority of a local hypothesis is the default priority.  The witness is the scenario
  of two lemmas with the priorities 10 and 5 for the head \<open>Foo\<close>, in both orders of
  registration.
\<close>

theorem find_most_relevant_first:
  assumes "index_reachable st"
  shows "sorted_wrt (by_priority (get_prio (m_index st))) (index_find st h)
         \<and> prio_fn_apply f (lemma_of_name n) =
             (case m_prios f n of Some prio \<Rightarrow> prio | None \<Rightarrow> default_priority f)
         \<and> prio_fn_apply f (lemma_of_expr e) = default_priority f"
  using find_by_priority [OF assms, of h] by (simp add: prio_fn_apply_def)

theorem find_most_relevant_first_witness:
  "map_option (\<lambda>st. index_find st \<lparr>m_kind = kConstant, m_name = ''Foo''\<rparr>)
     (mk_backward_lemma_index 1000
        \<lparr>env_type = (\<lambda>c. mk_pi mk_sort (mk_app (mk_constant ''Foo'') (mk_var 0))),
         infer = (\<lambda>e. mk_app (mk_constant ''Foo'') e),
         try_to_pi = (\<lambda>e. e),
         push_local_from_binding = (\<lambda>n e. mk_local ''x''),
         intro_instances = [''hi'', ''lo''],
         intro_prios = [''hi'' \<mapsto> 10, ''lo'' \<mapsto> 5]\<rparr> [])
     = Some [lemma_of_name ''hi'', lemma_of_name ''lo'']
   \<and> map_option (\<lambda>st. index_find st \<lparr>m_kind = kConstant, m_name = ''Foo''\<rparr>)
     (mk_backward_lemma_index 1000
        \<lparr>env_type = (\<lambda>c. mk_pi mk_sort (mk_app (mk_constant ''Foo'') (mk_var 0))),
         infer = (\<lambda>e. mk_app (mk_constant ''Foo'') e),
         try_to_pi = (\<lambda>e. e),
         push_local_from_binding = (\<lambda>n e. mk_local ''x''),
         intro_instances = [''lo'', ''hi''],
         intro_prios = [''hi'' \<mapsto> 10, ''lo'' \<mapsto> 5]\<rparr> [])
     = Some [lemma_of_name ''hi'', lemma_of_name ''lo'']
   \<and> sorted_wrt (by_priority \<lparr>m_prios = [''hi'' \<mapsto> 10, ''lo'' \<mapsto> 5], default_priority = 1000\<rparr>)
        [lemma_of_name ''hi'', lemma_of_name ''lo'']
   \<and> prio_fn_apply \<lparr>m_prios = [''hi'' \<mapsto> 10, ''lo'' \<mapsto> 5], default_priority = 1000\<rparr>
        (lemma_of_name ''hi'') = 10
   \<and> prio_fn_apply \<lparr>m_prios = [''hi'' \<mapsto> 10, ''lo'' \<mapsto> 5], default_priority = 1000\<rparr>
        (lemma_of_name ''lo'') = 5
   \<and> prio_fn_apply \<lparr>m_prios = [''hi'' \<mapsto> 10, ''lo'' \<mapsto> 5], default_priority = 1000\<rparr>
        (lemma_of_expr (mk_local ''h'')) = 1000"
proof -
  let ?ctx = "\<lambda>ls. \<lparr>env_type = (\<lambda>c. mk_pi mk_sort (mk_app (mk_constant ''Foo'') (mk_var 0))),
         infer = (\<lambda>e. mk_app (mk_constant ''Foo'') e),
         try_to_pi = (\<lambda>e. e),
         push_local_from_binding = (\<lambda>n e. mk_local ''x''),
         intro_instances = ls,
         intro_prios = [''hi'' \<mapsto> 10::nat, ''lo'' \<mapsto> 5]\<rparr>"
  let ?f = "\<lparr>m_prios = [''hi'' \<mapsto> 10::nat, ''lo'' \<mapsto> 5], default_priority = 1000\<rparr>"
  let ?foo = "\<lparr>m_kind = kConstant, m_name = ''Foo''\<rparr>"
  let ?st = "\<lparr>m_index = \<lparr>get_prio = ?f,
                 m_map = [?foo \<mapsto> [lemma_of_name ''hi'', lemma_of_name ''lo'']]\<rparr>, tout = []\<rparr>"
  have tgt: "get_backward_target_decl (?ctx ls) c = Some (Some ?foo)" for ls c
    by (simp add: get_backward_target_decl_def get_backward_target_def strip_binders_pi
        strip_binders_not_pi is_pi_def is_constant_def instantiate_def head_index_of_def)
  have b1: "mk_backward_lemma_index 1000 (?ctx [''hi'', ''lo'']) [] = Some ?st"
    by (simp add: mk_backward_lemma_index_def tgt numeral_2_eq_2 index_add_def head_map_insert_def
        prio_fn_apply_def)
  have b2: "mk_backward_lemma_index 1000 (?ctx [''lo'', ''hi'']) [] = Some ?st"
    by (simp add: mk_backward_lemma_index_def tgt numeral_2_eq_2 index_add_def head_map_insert_def
        prio_fn_apply_def)
  have f: "index_find ?st ?foo = [lemma_of_name ''hi'', lemma_of_name ''lo'']"
    by (simp add: index_find_def head_map_find_def)
  show ?thesis
    using find_most_relevant_first [OF built [OF b1], of ?foo ?f "''hi''" "mk_local ''h''"]
      find_most_relevant_first [OF built [OF b1], of ?foo ?f "''lo''" "mk_local ''h''"]
    by (simp add: b1 b2 f)
qed

text \<open>
  C6: when the target of a declaration is missing or is no constant, the function run on
  setting the attribute \<open>intro\<close> throws the exception "invalid [intro] attribute";
  whereas the constructor of the index, whenever the target computation returns for all
  tagged declarations, returns an index: it writes one trace line for each lemma whose
  target is missing or no constant, in the order in which it handles them, and the index
  holds exactly the other lemmas, each under its target.
\<close>

theorem intro_head_validation:
  "(get_backward_target_decl ctx c = Some target \<and> no_constant_target target \<longrightarrow>
      intro_attribute_handler ctx env c = Some (Inl (Exception (invalid_intro_message c))))
   \<and> ((\<forall>d \<in> set (intro_instances ctx). get_backward_target_decl ctx d \<noteq> None) \<longrightarrow>
        (\<exists>st. mk_backward_lemma_index dflt ctx out = Some st
           \<and> tout st = out @ map discard_message (filter (discarded ctx) (rev (intro_instances ctx)))
           \<and> (\<forall>h d. lemma_of_name d \<in> set (index_find st h) \<longleftrightarrow>
                 d \<in> set (intro_instances ctx)
                 \<and> get_backward_target_decl ctx d = Some (Some h) \<and> m_kind h = kConstant)))"
  using build_result [of ctx dflt out] handler_result [of ctx c target env] by auto

theorem intro_head_validation_witness:
  "intro_attribute_handler
     \<lparr>env_type = (\<lambda>c. if c = ''bad'' then mk_pi mk_sort (mk_var 0) else mk_constant ''Foo''),
      infer = (\<lambda>e. e), try_to_pi = (\<lambda>e. e),
      push_local_from_binding = (\<lambda>n e. mk_local ''x''),
      intro_instances = [''good'', ''bad''], intro_prios = Map.empty\<rparr> () ''bad''
     = Some (Inl (Exception (invalid_intro_message ''bad'')))
   \<and> intro_attribute_handler
     \<lparr>env_type = (\<lambda>c. if c = ''bad'' then mk_pi mk_sort (mk_var 0) else mk_constant ''Foo''),
      infer = (\<lambda>e. e), try_to_pi = (\<lambda>e. e),
      push_local_from_binding = (\<lambda>n e. mk_local ''x''),
      intro_instances = [''good'', ''bad''], intro_prios = Map.empty\<rparr> () ''good''
     = Some (Inr ())
   \<and> map_option tout (mk_backward_lemma_index 1000
     \<lparr>env_type = (\<lambda>c. if c = ''bad'' then mk_pi mk_sort (mk_var 0) else mk_constant ''Foo''),
      infer = (\<lambda>e. e), try_to_pi = (\<lambda>e. e),
      push_local_from_binding = (\<lambda>n e. mk_local ''x''),
      intro_instances = [''good'', ''bad''], intro_prios = Map.empty\<rparr> [])
     = Some [discard_message ''bad'']
   \<and> map_option (\<lambda>st. index_find st \<lparr>m_kind = kConstant, m_name = ''Foo''\<rparr>) (mk_backward_lemma_index 1000
     \<lparr>env_type = (\<lambda>c. if c = ''bad'' then mk_pi mk_sort (mk_var 0) else mk_constant ''Foo''),
      infer = (\<lambda>e. e), try_to_pi = (\<lambda>e. e),
      push_local_from_binding = (\<lambda>n e. mk_local ''x''),
      intro_instances = [''good'', ''bad''], intro_prios = Map.empty\<rparr> [])
     = Some [lemma_of_name ''good'']"
proof -
  let ?ctx = "\<lparr>env_type = (\<lambda>c. if c = ''bad'' then mk_pi mk_sort (mk_var 0) else mk_constant ''Foo''),
      infer = (\<lambda>e. e), try_to_pi = (\<lambda>e. e),
      push_local_from_binding = (\<lambda>n e. mk_local ''x''),
      intro_instances = [''good'', ''bad''], intro_prios = Map.empty\<rparr>"
  let ?foo = "\<lparr>m_kind = kConstant, m_name = ''Foo''\<rparr>"
  have bad: "get_backward_target_decl ?ctx ''bad'' = Some (Some \<lparr>m_kind = kLocal, m_name = ''x''\<rparr>)"
    by (simp add: get_backward_target_decl_def get_backward_target_def strip_binders_pi
        strip_binders_not_pi is_pi_def is_constant_def is_local_def instantiate_def head_index_of_def)
  have good: "get_backward_target_decl ?ctx ''good'' = Some (Some ?foo)"
    by (simp add: get_backward_target_decl_def get_backward_target_def
        strip_binders_not_pi is_pi_def is_constant_def head_index_of_def)
  have h1: "intro_attribute_handler ?ctx () ''bad'' = Some (Inl (Exception (invalid_intro_message ''bad'')))"
    using intro_head_validation [of ?ctx "''bad''" "Some \<lparr>m_kind = kLocal, m_name = ''x''\<rparr>" "()"] bad
    by simp
  have b: "mk_backward_lemma_index 1000 ?ctx [] =
    Some \<lparr>m_index = \<lparr>get_prio = \<lparr>m_prios = Map.empty, default_priority = 1000\<rparr>,
            m_map = [?foo \<mapsto> [lemma_of_name ''good'']]\<rparr>, tout = [discard_message ''bad'']\<rparr>"
    by (simp add: mk_backward_lemma_index_def bad good numeral_2_eq_2 index_add_def head_map_insert_def
        trace_discard_def)
  have "\<forall>d \<in> set (intro_instances ?ctx). get_backward_target_decl ?ctx d \<noteq> None"
    by (simp add: good bad)
  then have "\<exists>st. mk_backward_lemma_index 1000 ?ctx [] = Some st
      \<and> tout st = [] @ map discard_message (filter (discarded ?ctx) (rev (intro_instances ?ctx)))"
    using intro_head_validation [of ?ctx "''bad''" "Some \<lparr>m_kind = kLocal, m_name = ''x''\<rparr>" "()" 1000 "[]"]
    by blast
  then show ?thesis
    using h1 by (simp add: b intro_attribute_handler_def good index_find_def head_map_find_def)
qed

text \<open>
  C10: when the conclusion of the inferred type of a hypothesis has a head that is
  neither a constant nor a local, \<open>insert\<close> and \<open>erase\<close> return and leave the state as it
  is: the index is the same, nothing is thrown and no line is written to the trace;
  whereas the constructor, for a declaration without target, goes on with one more
  trace line.
\<close>

theorem undetermined_head_ignored:
  assumes "strip_binders ctx 0 (infer ctx href) = Some concl"
    and "\<not> is_constant (get_app_fn concl)" and "\<not> is_local (get_app_fn concl)"
  shows "index_insert ctx href st = Some st \<and> index_erase ctx href st = Some st
         \<and> (get_backward_target_decl ctx (lemmas ! i) = Some None \<longrightarrow>
              index_lemmas ctx lemmas (Suc i) st = index_lemmas ctx lemmas i (trace_discard (lemmas ! i) st)
              \<and> tout (trace_discard (lemmas ! i) st) = tout st @ [discard_message (lemmas ! i)])"
  using insert_erase_undetermined [OF assms] by (simp add: trace_discard_def)

theorem undetermined_head_ignored_witness:
  "index_insert
     \<lparr>env_type = (\<lambda>c. mk_metavar ''m''), infer = (\<lambda>e. mk_app (mk_metavar ''m'') e),
      try_to_pi = (\<lambda>e. e), push_local_from_binding = (\<lambda>n e. mk_local ''x''),
      intro_instances = [''meta''], intro_prios = Map.empty\<rparr>
     (mk_local ''h'')
     \<lparr>m_index = \<lparr>get_prio = \<lparr>m_prios = Map.empty, default_priority = 1000\<rparr>,
                 m_map = [\<lparr>m_kind = kConstant, m_name = ''Foo''\<rparr> \<mapsto> [lemma_of_name ''hi'']]\<rparr>,
      tout = [''earlier'']\<rparr>
   = Some \<lparr>m_index = \<lparr>get_prio = \<lparr>m_prios = Map.empty, default_priority = 1000\<rparr>,
                 m_map = [\<lparr>m_kind = kConstant, m_name = ''Foo''\<rparr> \<mapsto> [lemma_of_name ''hi'']]\<rparr>,
      tout = [''earlier'']\<rparr>
   \<and> index_erase
     \<lparr>env_type = (\<lambda>c. mk_metavar ''m''), infer = (\<lambda>e. mk_app (mk_metavar ''m'') e),
      try_to_pi = (\<lambda>e. e), push_local_from_binding = (\<lambda>n e. mk_local ''x''),
      intro_instances = [''meta''], intro_prios = Map.empty\<rparr>
     (mk_local ''h'')
     \<lparr>m_index = \<lparr>get_prio = \<lparr>m_prios = Map.empty, default_priority = 1000\<rparr>,
                 m_map = [\<lparr>m_kind = kConstant, m_name = ''Foo''\<rparr> \<mapsto> [lemma_of_name ''hi'']]\<rparr>,
      tout = [''earlier'']\<rparr>
   = Some \<lparr>m_index = \<lparr>get_prio = \<lparr>m_prios = Map.empty, default_priority = 1000\<rparr>,
                 m_map = [\<lparr>m_kind = kConstant, m_name = ''Foo''\<rparr> \<mapsto> [lemma_of_name ''hi'']]\<rparr>,
      tout = [''earlier'']\<rparr>
   \<and> map_option tout (mk_backward_lemma_index 1000
     \<lparr>env_type = (\<lambda>c. mk_metavar ''m''), infer = (\<lambda>e. mk_app (mk_metavar ''m'') e),
      try_to_pi = (\<lambda>e. e), push_local_from_binding = (\<lambda>n e. mk_local ''x''),
      intro_instances = [''meta''], intro_prios = Map.empty\<rparr> [''earlier''])
   = Some [''earlier'', discard_message ''meta'']"
proof -
  let ?ctx = "\<lparr>env_type = (\<lambda>c. mk_metavar ''m''), infer = (\<lambda>e. mk_app (mk_metavar ''m'') e),
      try_to_pi = (\<lambda>e. e), push_local_from_binding = (\<lambda>n e. mk_local ''x''),
      intro_instances = [''meta''], intro_prios = Map.empty\<rparr>"
  let ?st = "\<lparr>m_index = \<lparr>get_prio = \<lparr>m_prios = Map.empty, default_priority = 1000\<rparr>,
                 m_map = [\<lparr>m_kind = kConstant, m_name = ''Foo''\<rparr> \<mapsto> [lemma_of_name ''hi'']]\<rparr>,
      tout = [''earlier'']\<rparr>"
  let ?init = "\<lparr>m_index = \<lparr>get_prio = \<lparr>m_prios = Map.empty, default_priority = 1000\<rparr>,
                 m_map = Map.empty\<rparr>, tout = [''earlier'']\<rparr>"
  have s: "strip_binders ?ctx 0 (infer ?ctx (mk_local ''h'')) = Some (mk_app (mk_metavar ''m'') (mk_local ''h''))"
    by (simp add: strip_binders_not_pi is_pi_def)
  have nc: "\<not> is_constant (get_app_fn (mk_app (mk_metavar ''m'') (mk_local ''h'')))"
    and nl: "\<not> is_local (get_app_fn (mk_app (mk_metavar ''m'') (mk_local ''h'')))"
    by (simp_all add: is_constant_def is_local_def)
  have d: "get_backward_target_decl ?ctx ''meta'' = Some None"
    by (simp add: get_backward_target_decl_def get_backward_target_def strip_binders_not_pi
        is_pi_def is_constant_def is_local_def)
  have "index_insert ?ctx (mk_local ''h'') ?st = Some ?st \<and> index_erase ?ctx (mk_local ''h'') ?st = Some ?st"
    using undetermined_head_ignored [OF s nc nl, of ?st "[''meta'']" 0] by simp
  moreover have "index_lemmas ?ctx [''meta''] (Suc 0) ?init = Some (trace_discard ''meta'' ?init)"
    by (simp add: d)
  ultimately show ?thesis
    by (simp add: mk_backward_lemma_index_def trace_discard_def)
qed

end
